theory Spec2Isabelle
  imports Complex_Main "HOL-Library.Word"
begin

section \<open>JavaScript numbers\<close>

text \<open>
  A JavaScript \<open>number\<close> is an IEEE 754 double. It is modelled by its value, a real, or
  \<open>NaN\<close>; the arithmetic of the program rounds every result to the nearest double, ties to
  even (\<open>rnd64\<close> below). Infinities are not represented: the only divisions of the
  program whose denominator is not a non-zero constant are \<open>r / count\<close> in
  \<open>getNeighborAverage\<close> and \<open>sum / brightness.length\<close> in
  \<open>analyzeLightingAndShadows\<close>, and in both the numerator is 0 whenever the denominator
  is 0 (lemmas \<open>zero_count_zero_sum\<close> and \<open>zero_length_zero_sum\<close>), so the quotient is
  \<open>0 / 0 = NaN\<close>. The exponent of a double is not bounded in the model: the numbers of the
  program are bytes, counters and short sums, products and quotients of them, far from
  overflow and from the subnormal range.
\<close>

datatype number = NaN | Num real

fun lift1 :: "(real \<Rightarrow> real) \<Rightarrow> number \<Rightarrow> number" where
  "lift1 f (Num a) = Num (f a)"
| "lift1 f NaN = NaN"

fun lift2 :: "(real \<Rightarrow> real \<Rightarrow> real) \<Rightarrow> number \<Rightarrow> number \<Rightarrow> number" where
  "lift2 f (Num a) (Num b) = Num (f a b)"
| "lift2 f _ _ = NaN"

text \<open>Arithmetic without rounding: \<open>abs\<close>, which is exact on doubles, and the operations
  in which the theorems state their bounds.\<close>

instantiation number :: "{plus, minus, times, abs, inverse}"
begin

definition plus_number :: "number \<Rightarrow> number \<Rightarrow> number" where
  "a + b = lift2 (+) a b"

definition minus_number :: "number \<Rightarrow> number \<Rightarrow> number" where
  "a - b = lift2 (-) a b"

definition times_number :: "number \<Rightarrow> number \<Rightarrow> number" where
  "a * b = lift2 (*) a b"

definition abs_number :: "number \<Rightarrow> number" where
  "\<bar>a\<bar> = lift1 abs a"

definition divide_number :: "number \<Rightarrow> number \<Rightarrow> number" where
  "divide a b =
     (case (a, b) of
        (Num x, Num y) \<Rightarrow> (if y = 0 then NaN else Num (x / y))
      | _ \<Rightarrow> NaN)"

definition inverse_number :: "number \<Rightarrow> number" where
  "inverse a = divide (Num 1) a"

instance ..

end

text \<open>Comparisons with \<open>NaN\<close> are false.\<close>

fun gt :: "number \<Rightarrow> number \<Rightarrow> bool" where
  "gt (Num a) (Num b) = (a > b)"
| "gt _ _ = False"

fun lt :: "number \<Rightarrow> number \<Rightarrow> bool" where
  "lt (Num a) (Num b) = (a < b)"
| "lt _ _ = False"

subsection \<open>Rounding to double precision\<close>

text \<open>\<open>twopow e\<close> is \<open>2\<^sup>e\<close>; \<open>expo x\<close> is the exponent of \<open>x\<close>, the \<open>e\<close> with
  \<open>2\<^sup>e \<le> |x| < 2\<^sup>e\<^sup>+\<^sup>1\<close>; \<open>rhe\<close> rounds to the nearest integer, a half to the even
  one. \<open>rnd64 x\<close> is the double nearest to \<open>x\<close>: the nearest multiple of
  \<open>2\<^sup>e\<^sup>-\<^sup>5\<^sup>2\<close>, which leaves a significand of 53 bits.\<close>

definition twopow :: "int \<Rightarrow> real" where
  "twopow e = (if 0 \<le> e then 2 ^ nat e else inverse (2 ^ nat (- e)))"

function expo :: "real \<Rightarrow> int" where
  "expo x =
     (if x = 0 then 0
      else if 2 \<le> \<bar>x\<bar> then expo (x / 2) + 1
      else if \<bar>x\<bar> < 1 then expo (x * 2) - 1
      else 0)"
  by pat_completeness auto
termination
proof (relation "measure (\<lambda>x. nat \<bar>\<lfloor>log 2 \<bar>x\<bar>\<rfloor>\<bar>)")
  show "wf (measure (\<lambda>x. nat \<bar>\<lfloor>log 2 \<bar>x\<bar>\<rfloor>\<bar>))"
    by simp
next
  fix x :: real
  assume x: "x \<noteq> 0" "2 \<le> \<bar>x\<bar>"
  have "log 2 \<bar>x / 2\<bar> = log 2 \<bar>x\<bar> - 1"
    using x(1) by (simp add: log_divide)
  moreover have "1 \<le> log 2 \<bar>x\<bar>"
    using x(2) by (simp add: le_log_iff)
  ultimately have "nat \<bar>\<lfloor>log 2 \<bar>x / 2\<bar>\<rfloor>\<bar> < nat \<bar>\<lfloor>log 2 \<bar>x\<bar>\<rfloor>\<bar>"
    by linarith
  then show "(x / 2, x) \<in> measure (\<lambda>x. nat \<bar>\<lfloor>log 2 \<bar>x\<bar>\<rfloor>\<bar>)"
    by simp
next
  fix x :: real
  assume x: "x \<noteq> 0" "\<bar>x\<bar> < 1"
  have "log 2 \<bar>x * 2\<bar> = log 2 \<bar>x\<bar> + 1"
    using x(1) by (simp add: abs_mult log_mult)
  moreover have "log 2 \<bar>x\<bar> < 0"
    using x by simp
  ultimately have "nat \<bar>\<lfloor>log 2 \<bar>x * 2\<bar>\<rfloor>\<bar> < nat \<bar>\<lfloor>log 2 \<bar>x\<bar>\<rfloor>\<bar>"
    by linarith
  then show "(x * 2, x) \<in> measure (\<lambda>x. nat \<bar>\<lfloor>log 2 \<bar>x\<bar>\<rfloor>\<bar>)"
    by simp
qed

declare expo.simps [simp del]

definition rhe :: "real \<Rightarrow> int" where
  "rhe y =
     (let f = \<lfloor>y\<rfloor>; d = y - of_int f
      in if d < 1 / 2 then f else if 1 / 2 < d then f + 1 else if even f then f else f + 1)"

definition rnd64 :: "real \<Rightarrow> real" where
  "rnd64 x =
     (if x = 0 then 0
      else twopow (expo x - 52) * of_int (rhe (x / twopow (expo x - 52))))"

text \<open>A decimal literal of the program text denotes the double nearest to it.\<close>

definition D :: "real \<Rightarrow> number" where
  "D x = Num (rnd64 x)"

text \<open>The operators \<open>+\<close>, \<open>-\<close>, \<open>*\<close> and \<open>/\<close> of the program: the exact result, rounded.\<close>

definition fadd :: "number \<Rightarrow> number \<Rightarrow> number" where
  "fadd a b = lift2 (\<lambda>x y. rnd64 (x + y)) a b"

definition fsub :: "number \<Rightarrow> number \<Rightarrow> number" where
  "fsub a b = lift2 (\<lambda>x y. rnd64 (x - y)) a b"

definition fmul :: "number \<Rightarrow> number \<Rightarrow> number" where
  "fmul a b = lift2 (\<lambda>x y. rnd64 (x * y)) a b"

definition fdiv :: "number \<Rightarrow> number \<Rightarrow> number" where
  "fdiv a b =
     (case (a, b) of
        (Num x, Num y) \<Rightarrow> (if y = 0 then NaN else Num (rnd64 (x / y)))
      | _ \<Rightarrow> NaN)"

subsection \<open>The \<open>Math\<close> object\<close>

text \<open>\<open>Math.round\<close> rounds half up; \<open>Math.max\<close>, \<open>Math.min\<close>, \<open>Math.floor\<close> and
  \<open>Math.sqrt\<close> propagate \<open>NaN\<close>, and the square root of a negative number is \<open>NaN\<close>.
  \<open>Math.round\<close>, \<open>Math.floor\<close>, \<open>Math.max\<close> and \<open>Math.min\<close> are exact. \<open>Math.sqrt\<close> is the
  correctly rounded square root of IEEE 754. The language leaves the precision of
  \<open>Math.pow\<close> to the implementation; \<open>Math.pow(v, 2)\<close> is taken as the correctly rounded
  square, the rounded product \<open>v * v\<close>.\<close>

definition Math_round :: "number \<Rightarrow> number" where
  "Math_round x = lift1 (\<lambda>a. of_int \<lfloor>a + 1 / 2\<rfloor>) x"

definition Math_floor :: "number \<Rightarrow> number" where
  "Math_floor x = lift1 (\<lambda>a. of_int \<lfloor>a\<rfloor>) x"

definition Math_max :: "number \<Rightarrow> number \<Rightarrow> number" where
  "Math_max a b = lift2 max a b"

definition Math_min :: "number \<Rightarrow> number \<Rightarrow> number" where
  "Math_min a b = lift2 min a b"

definition Math_sqrt :: "number \<Rightarrow> number" where
  "Math_sqrt x =
     (case x of NaN \<Rightarrow> NaN | Num a \<Rightarrow> (if a < 0 then NaN else Num (rnd64 (sqrt a))))"

definition Math_pow2 :: "number \<Rightarrow> number" where
  "Math_pow2 x = lift1 (\<lambda>a. rnd64 (a * a)) x"

section \<open>Image data\<close>

text \<open>\<open>ImageData\<close>: \<open>data\<close> is a \<open>Uint8ClampedArray\<close> in row-major RGBA order.\<close>

record ImageData =
  width :: nat
  height :: nat
  data :: "8 word list"

text \<open>The platform only constructs image data of positive width and height whose buffer
  holds four bytes per pixel.\<close>

definition wf_image :: "ImageData \<Rightarrow> bool" where
  "wf_image img \<longleftrightarrow>
     0 < width img \<and> 0 < height img \<and> length (data img) = width img * height img * 4"

text \<open>\<open>data[i]\<close> as an operand of arithmetic: a read outside the array is \<open>undefined\<close>,
  which arithmetic turns into \<open>NaN\<close>.\<close>

definition rd :: "8 word list \<Rightarrow> int \<Rightarrow> number" where
  "rd d i = (if 0 \<le> i \<and> i < int (length d) then Num (real (unat (d ! nat i))) else NaN)"

text \<open>\<open>data[i] || 0\<close>: \<open>undefined\<close> and 0 both give 0.\<close>

definition rd_or0 :: "8 word list \<Rightarrow> int \<Rightarrow> nat" where
  "rd_or0 d i = (if 0 \<le> i \<and> i < int (length d) then unat (d ! nat i) else 0)"

section \<open>Strings\<close>

text \<open>Strings are modelled as 8-bit character lists. \<open>String_of\<close> is the conversion of a
  template literal; the program applies it only to counters and to results of
  \<open>Math.floor\<close> and \<open>Math.round\<close> (integers far below \<open>1e21\<close>, which print as their
  decimal digits) and to \<open>NaN\<close>.\<close>

fun show_nat :: "nat \<Rightarrow> string" where
  "show_nat n =
     (if n < 10 then [char_of (48 + n)] else show_nat (n div 10) @ [char_of (48 + n mod 10)])"

declare show_nat.simps [simp del]

definition String_of :: "number \<Rightarrow> string" where
  "String_of x =
     (case x of
        NaN \<Rightarrow> ''NaN''
      | Num a \<Rightarrow> (if a < 0 then ''-'' @ show_nat (nat \<lfloor>- a\<rfloor>) else show_nat (nat \<lfloor>a\<rfloor>)))"

definition startsWith :: "string \<Rightarrow> string \<Rightarrow> bool" where
  "startsWith s p \<longleftrightarrow> take (length p) s = p"

fun includes' :: "string \<Rightarrow> string \<Rightarrow> bool" where
  "includes' [] p \<longleftrightarrow> p = []"
| "includes' (c # cs) p \<longleftrightarrow> take (length p) (c # cs) = p \<or> includes' cs p"

text \<open>\<open>toLowerCase\<close> on 8-bit (Latin-1) characters: the letters \<open>A\<close> to \<open>Z\<close> and the
  accented capitals move up by 32, every other character stays.\<close>

definition lower :: "char \<Rightarrow> char" where
  "lower c =
     (let n = of_char c :: nat
      in if (65 \<le> n \<and> n \<le> 90) \<or> (192 \<le> n \<and> n \<le> 222 \<and> n \<noteq> 215)
         then char_of (n + 32) else c)"

definition toLowerCase :: "string \<Rightarrow> string" where
  "toLowerCase s = map lower s"

fun join :: "string \<Rightarrow> string list \<Rightarrow> string" where
  "join sep [] = []"
| "join sep [x] = x"
| "join sep (x # y # ys) = x @ sep @ join sep (y # ys)"

section \<open>Random source\<close>

text \<open>\<open>Math.random()\<close> is a stream of draws from \<open>[0, 1)\<close>; a detector uses draw number
  \<open>i\<close> of its stream for its \<open>i\<close>-th call. A draw is any real of the interval, and what
  is computed from a draw alone (the index of the sampled pixel, the sampled row, the
  coordinates of a heatmap region) is computed without rounding. The program rounds the
  product of a draw and the number of pixels or rows, so that a draw within one rounding
  error below a boundary (the double nearest to \<open>1 / 3\<close> on three pixels) selects the
  next pixel or row there; what is proved about a sampled pixel or row is proved for every
  draw.\<close>

type_synonym random = "nat \<Rightarrow> real"

definition valid_random :: "random \<Rightarrow> bool" where
  "valid_random rnd \<longleftrightarrow> (\<forall>i. 0 \<le> rnd i \<and> rnd i < 1)"

section \<open>Neighbour average\<close>

definition neighbors :: "8 word list \<Rightarrow> int \<Rightarrow> nat \<Rightarrow> int list" where
  "neighbors d index w =
     filter (\<lambda>i. i \<ge> 0 \<and> i < int (length d))
       [index - int w * 4, index + int w * 4, index - 4, index + 4]"

text \<open>The object \<open>{ r, g, b }\<close>; the fields are primed to keep them apart from variables.\<close>

record rgb =
  r' :: number
  g' :: number
  b' :: number

definition getNeighborAverage :: "8 word list \<Rightarrow> int \<Rightarrow> nat \<Rightarrow> rgb" where
  "getNeighborAverage d index w =
     (let ns = neighbors d index w;
          rs = fold (\<lambda>i acc. acc + rd_or0 d i) ns 0;
          gs = fold (\<lambda>i acc. acc + rd_or0 d (i + 1)) ns 0;
          bs = fold (\<lambda>i acc. acc + rd_or0 d (i + 2)) ns 0;
          count = length ns
      in \<lparr> r' = fdiv (Num (real rs)) (Num (real count)),
           g' = fdiv (Num (real gs)) (Num (real count)),
           b' = fdiv (Num (real bs)) (Num (real count)) \<rparr>)"

section \<open>Pixel anomaly detector\<close>

record PixelAnomalies =
  detected :: bool
  severity :: number
  description :: string

definition sampleSize :: nat where
  "sampleSize = 1000"

text \<open>\<open>Math.floor(Math.random() * (data.length / 4)) * 4\<close> for the draw \<open>u\<close>.\<close>

definition randomIndex :: "8 word list \<Rightarrow> real \<Rightarrow> int" where
  "randomIndex d u = \<lfloor>u * (real (length d) / 4)\<rfloor> * 4"

text \<open>The sum of the absolute channel differences between the pixel at \<open>index\<close> and its
  neighbour average, as both sampling loops compute it.\<close>

definition neighborDiff :: "ImageData \<Rightarrow> int \<Rightarrow> number" where
  "neighborDiff imageData index =
     (let d = data imageData;
          avgNeighbor = getNeighborAverage d index (width imageData)
      in fadd (fadd \<bar>fsub (rd d index) (r' avgNeighbor)\<bar>
                    \<bar>fsub (rd d (index + 1)) (g' avgNeighbor)\<bar>)
              \<bar>fsub (rd d (index + 2)) (b' avgNeighbor)\<bar>)"

definition analyzePixelAnomalies :: "ImageData \<Rightarrow> random \<Rightarrow> PixelAnomalies" where
  "analyzePixelAnomalies imageData rnd =
     (let anomalyCount =
            fold (\<lambda>i cnt.
                    if gt (neighborDiff imageData (randomIndex (data imageData) (rnd i))) (Num 100)
                    then cnt + 1 else cnt)
              [0..<sampleSize] (0::nat);
          severity = fmul (fdiv (Num (real anomalyCount)) (Num (real sampleSize))) (Num 100);
          detected = gt severity (Num 15)
      in \<lparr> PixelAnomalies.detected = detected,
           severity = Math_round severity,
           description =
             (if detected
              then String_of (Num (real anomalyCount))
                   @ '' pixel discontinuities detected indicating potential manipulation''
              else ''No significant pixel anomalies detected'') \<rparr>)"

section \<open>Lighting and shadow detector\<close>

record LightingShadows =
  consistent :: bool
  score :: number
  description :: string

text \<open>The scan \<open>for (let i = 0; i < data.length; i += 4)\<close> that collects the brightness of
  every pixel.\<close>

function brightness_loop :: "8 word list \<Rightarrow> nat \<Rightarrow> number list \<Rightarrow> number list" where
  "brightness_loop d i brightness =
     (if i < length d
      then brightness_loop d (i + 4)
             (brightness
                @ [fdiv (fadd (fadd (rd d (int i)) (rd d (int i + 1))) (rd d (int i + 2))) (Num 3)])
      else brightness)"
  by pat_completeness auto
termination
  by (relation "measure (\<lambda>(d, i, brightness). length d - i)") auto

declare brightness_loop.simps [simp del]

definition analyzeLightingAndShadows :: "ImageData \<Rightarrow> LightingShadows" where
  "analyzeLightingAndShadows imageData =
     (let brightness = brightness_loop (data imageData) 0 [];
          mean = fdiv (fold (\<lambda>b a. fadd a b) brightness (Num 0))
                   (Num (real (length brightness)));
          variance =
            fdiv (fold (\<lambda>val sum. fadd sum (Math_pow2 (fsub val mean))) brightness (Num 0))
              (Num (real (length brightness)));
          stdDev = Math_sqrt variance;
          normalizedStdDev = fdiv stdDev (Num 255);
          consistencyScore =
            Math_max (Num 0) (fsub (Num 100) (fmul normalizedStdDev (Num 200)));
          consistent = gt consistencyScore (Num 40)
      in \<lparr> consistent = consistent,
           score = Math_round consistencyScore,
           description =
             (if consistent
              then ''Lighting and shadow patterns appear natural and consistent''
              else ''Unusual lighting variations detected suggesting possible compositing'') \<rparr>)"

section \<open>AI artifact detector\<close>

record AiArtifacts =
  detected :: bool
  confidence :: number
  description :: string

definition sampleRows :: nat where
  "sampleRows = 50"

text \<open>The difference between the leftmost and the rightmost pixel of the row drawn by \<open>u\<close>.\<close>

definition rowDiff :: "ImageData \<Rightarrow> real \<Rightarrow> number" where
  "rowDiff imageData u =
     (let d = data imageData;
          y = \<lfloor>u * real (height imageData)\<rfloor>;
          leftIndex = (y * int (width imageData)) * 4;
          rightIndex = (y * int (width imageData) + int (width imageData) - 1) * 4
      in fold (\<lambda>idx sum. fadd sum \<bar>fsub (rd d (leftIndex + idx)) (rd d (rightIndex + idx))\<bar>)
           [0, 1, 2] (Num 0))"

definition detectAIArtifacts :: "ImageData \<Rightarrow> random \<Rightarrow> AiArtifacts" where
  "detectAIArtifacts imageData rnd =
     (let symmetryScore =
            fold (\<lambda>i cnt. if lt (rowDiff imageData (rnd i)) (Num 30) then cnt + 1 else cnt)
              [0..<sampleRows] (0::nat);
          smoothnessScore =
            fold (\<lambda>i cnt.
                    if lt (neighborDiff imageData
                             (randomIndex (data imageData) (rnd (sampleRows + i)))) (Num 20)
                    then cnt + 1 else cnt)
              [0..<1000] (0::nat);
          symmetryPercent =
            fmul (fdiv (Num (real symmetryScore)) (Num (real sampleRows))) (Num 100);
          smoothnessPercent = fmul (fdiv (Num (real smoothnessScore)) (Num 1000)) (Num 100);
          aiConfidence = fadd (fmul symmetryPercent (D 0.3)) (fmul smoothnessPercent (D 0.7));
          detected = gt aiConfidence (Num 60)
      in \<lparr> AiArtifacts.detected = detected,
           confidence = Math_round aiConfidence,
           description =
             (if detected
              then ''High symmetry and smoothness patterns typical of GAN/diffusion models detected''
              else ''No significant AI generation artifacts found'') \<rparr>)"

section \<open>Metadata detector\<close>

text \<open>The facts of a \<open>File\<close> that the program reads. \<open>type\<close> is empty when the MIME type is
  unknown; \<open>lastModified\<close> is in milliseconds since the epoch.\<close>

record File =
  name :: string
  type :: string
  size' :: nat
  lastModified :: int

record Metadata =
  authentic :: bool
  flags :: "string list"
  description :: string

definition analyzeMetadata :: "File \<Rightarrow> Metadata" where
  "analyzeMetadata file =
     (let flags0 = [];
          flags1 = (if type file \<noteq> [] \<and> \<not> startsWith (type file) ''image/''
                    then flags0 @ [''Invalid MIME type''] else flags0);
          flags2 = (if size' file < 1000
                    then flags1 @ [''Suspiciously small file size''] else flags1);
          flags3 = (if size' file > 50 * 1024 * 1024
                    then flags2 @ [''Unusually large file size''] else flags2);
          flags4 = (if lastModified file = 0
                    then flags3 @ [''Missing modification timestamp''] else flags3);
          fileName = toLowerCase (name file);
          flags5 = (if includes' fileName ''screenshot'' \<or> includes' fileName ''screen shot''
                    then flags4 @ [''Screenshot detected''] else flags4);
          flags6 = (if includes' fileName ''ai'' \<or> includes' fileName ''generated''
                       \<or> includes' fileName ''midjourney'' \<or> includes' fileName ''dalle''
                    then flags5 @ [''AI-related filename''] else flags5);
          authentic = (length flags6 = 0)
      in \<lparr> authentic = authentic,
           flags = flags6,
           description =
             (if authentic then ''File metadata appears legitimate''
              else ''Metadata concerns: '' @ join '', '' flags6) \<rparr>)"

section \<open>Semantic logic detector\<close>

record SemanticLogic =
  logical :: bool
  score :: number
  description :: string

text \<open>The \<open>Set\<close> of strings is a duplicate-free list in insertion order; \<open>Set_add\<close> is its
  \<open>add\<close>.\<close>

definition Set_add :: "string list \<Rightarrow> string \<Rightarrow> string list" where
  "Set_add s x = (if x \<in> set s then s else s @ [x])"

text \<open>The scan \<open>for (let i = 0; i < 10000 && i < data.length; i += 40)\<close>.\<close>

function semantic_loop :: "8 word list \<Rightarrow> nat \<Rightarrow> string list \<Rightarrow> string list" where
  "semantic_loop d i colorDiversity =
     (if i < 10000 \<and> i < length d
      then (let r = Math_floor (fdiv (rd d (int i)) (Num 32));
                g = Math_floor (fdiv (rd d (int i + 1)) (Num 32));
                b = Math_floor (fdiv (rd d (int i + 2)) (Num 32))
            in semantic_loop d (i + 40)
                 (Set_add colorDiversity
                    (String_of r @ ''-'' @ String_of g @ ''-'' @ String_of b)))
      else colorDiversity)"
  by pat_completeness auto
termination
  by (relation "measure (\<lambda>(d, i, colorDiversity). 10000 - i)") auto

declare semantic_loop.simps [simp del]

definition analyzeSemanticLogic :: "ImageData \<Rightarrow> SemanticLogic" where
  "analyzeSemanticLogic imageData =
     (let colorDiversity = semantic_loop (data imageData) 0 [];
          diversityScore =
            Math_min (Num 100)
              (fmul (fdiv (Num (real (length colorDiversity))) (Num 250)) (Num 100));
          logical = gt diversityScore (Num 30)
      in \<lparr> logical = logical,
           SemanticLogic.score = Math_round diversityScore,
           description =
             (if logical then ''Color distribution and composition appear natural''
              else ''Limited color diversity may indicate synthetic generation'') \<rparr>)"

section \<open>Heatmap\<close>

text \<open>A region \<open>{ x, y, width, height, intensity }\<close>; the first four fields are primed to
  keep them apart from variables and from the fields of \<open>ImageData\<close>.\<close>

record HeatmapRegion =
  x' :: number
  y' :: number
  width' :: number
  height' :: number
  intensity :: number

record HeatmapData =
  regions :: "HeatmapRegion list"

text \<open>The region pushed by pass \<open>i\<close> of the loop: five draws, in the order of the fields.
  The coordinates are functions of the draws alone and are computed without rounding.\<close>

definition region :: "random \<Rightarrow> nat \<Rightarrow> HeatmapRegion" where
  "region rnd i =
     \<lparr> x' = Num (rnd (5 * i)) * Num 0.8,
       y' = Num (rnd (5 * i + 1)) * Num 0.8,
       width' = Num 0.1 + Num (rnd (5 * i + 2)) * Num 0.15,
       height' = Num 0.1 + Num (rnd (5 * i + 3)) * Num 0.15,
       intensity = Num 0.3 + Num (rnd (5 * i + 4)) * Num 0.7 \<rparr>"

text \<open>The loop \<open>for (let i = 0; i < bound; i++)\<close>.\<close>

function heatmap_loop :: "number \<Rightarrow> random \<Rightarrow> nat \<Rightarrow> HeatmapRegion list \<Rightarrow> HeatmapRegion list"
  where
  "heatmap_loop bound rnd i acc =
     (if lt (Num (real i)) bound
      then heatmap_loop bound rnd (i + 1) (acc @ [region rnd i])
      else acc)"
  by pat_completeness auto
termination
proof (relation "measure (\<lambda>(bound, rnd, i, acc).
                   case bound of NaN \<Rightarrow> 0 | Num m \<Rightarrow> nat \<lceil>m\<rceil> - i)")
  show "wf (measure (\<lambda>(bound, rnd, i, acc).
              case bound of NaN \<Rightarrow> 0 | Num m \<Rightarrow> nat \<lceil>m\<rceil> - i))"
    by simp
next
  fix bound :: number and rnd :: random and i :: nat and acc :: "HeatmapRegion list"
  assume a: "lt (Num (real i)) bound"
  then obtain m where m: "bound = Num m" "real i < m"
    by (cases bound) auto
  have "i < nat \<lceil>m\<rceil>"
    using m(2) by linarith
  then show "((bound, rnd, i + 1, acc @ [region rnd i]), (bound, rnd, i, acc))
             \<in> measure (\<lambda>(bound, rnd, i, acc).
                   case bound of NaN \<Rightarrow> 0 | Num m \<Rightarrow> nat \<lceil>m\<rceil> - i)"
    using m(1) by simp
qed

declare heatmap_loop.simps [simp del]

definition generateHeatmap :: "ImageData \<Rightarrow> number \<Rightarrow> number \<Rightarrow> random \<Rightarrow> HeatmapData" where
  "generateHeatmap imageData pixelAnomalies aiArtifacts rnd =
     (let numRegions = Math_floor (fdiv (fadd pixelAnomalies aiArtifacts) (Num 20))
      in \<lparr> regions = heatmap_loop (Math_min numRegions (Num 8)) rnd 0 [] \<rparr>)"

section \<open>Dates\<close>

datatype error = Error string | RangeError string

definition pad :: "nat \<Rightarrow> nat \<Rightarrow> string" where
  "pad k n = replicate (k - length (show_nat n)) (CHR ''0'') @ show_nat n"

text \<open>The ISO format of the time value \<open>t\<close> (milliseconds since the epoch, UTC) in the
  proleptic Gregorian calendar, as ECMAScript defines it: years outside 0 to 9999 are
  printed with a sign and six digits.\<close>

definition formatISO :: "int \<Rightarrow> string" where
  "formatISO t =
     (let days = t div 86400000;
          ms = t mod 86400000;
          z = days + 719468;
          era = z div 146097;
          doe = z - era * 146097;
          yoe = (doe - doe div 1460 + doe div 36524 - doe div 146096) div 365;
          doy = doe - (365 * yoe + yoe div 4 - yoe div 100);
          mp = (5 * doy + 2) div 153;
          d = doy - (153 * mp + 2) div 5 + 1;
          m = (if mp < 10 then mp + 3 else mp - 9);
          year = (if m \<le> 2 then yoe + era * 400 + 1 else yoe + era * 400);
          yearStr = (if 0 \<le> year \<and> year \<le> 9999 then pad 4 (nat year)
                     else (if year < 0 then ''-'' else ''+'') @ pad 6 (nat \<bar>year\<bar>))
      in yearStr @ ''-'' @ pad 2 (nat m) @ ''-'' @ pad 2 (nat d)
         @ ''T'' @ pad 2 (nat (ms div 3600000))
         @ '':'' @ pad 2 (nat (ms div 60000 mod 60))
         @ '':'' @ pad 2 (nat (ms div 1000 mod 60))
         @ ''.'' @ pad 3 (nat (ms mod 1000)) @ ''Z'')"

text \<open>\<open>new Date(t).toISOString()\<close> for an integral \<open>t\<close>: a \<open>RangeError\<close> outside the range
  of time values.\<close>

definition toISOString :: "int \<Rightarrow> error + string" where
  "toISOString t =
     (if \<bar>t\<bar> > 8640000000000000 then Inl (RangeError ''Invalid time value'')
      else Inr (formatISO t))"

section \<open>The analysis\<close>

datatype resultType = real' | edited | ai_generated

record DetectionDetails =
  pixelAnomalies :: PixelAnomalies
  lightingShadows :: LightingShadows
  aiArtifacts :: AiArtifacts
  metadata :: Metadata
  semanticLogic :: SemanticLogic

record MetadataAnalysis =
  hasExif :: bool
  cameraModel :: "string option"
  software :: "string option"
  dateTime :: "string option"
  flags :: "string list"

record AnalysisResult =
  resultType :: resultType
  manipulationScore :: number
  trustScore :: number
  explanation :: string
  detectionDetails :: DetectionDetails
  heatmapData :: HeatmapData
  metadataAnalysis :: MetadataAnalysis
  processingTimeMs :: number

text \<open>What the program takes from the browser: whether the canvas gives a 2D context, the
  outcome of loading the file as an image and reading its pixels from the canvas
  (\<open>None\<close> when the image fails to load), and the two readings of \<open>performance.now()\<close>.\<close>

record Browser =
  canvasContext :: bool
  imagePixels :: "File \<Rightarrow> ImageData option"
  startTime :: real
  endTime :: real

definition loadImageData :: "Browser \<Rightarrow> File \<Rightarrow> error + ImageData" where
  "loadImageData env file =
     (if \<not> canvasContext env then Inl (Error ''Could not get canvas context'')
      else case imagePixels env file of
             None \<Rightarrow> Inl (Error ''Failed to load image'')
           | Some imageData \<Rightarrow> Inr imageData)"

text \<open>The weighted sum that \<open>analyzeImage\<close> rounds into \<open>manipulationScore\<close>.\<close>

definition weightedSum ::
  "PixelAnomalies \<Rightarrow> LightingShadows \<Rightarrow> AiArtifacts \<Rightarrow> Metadata \<Rightarrow> SemanticLogic \<Rightarrow> number" where
  "weightedSum pa ls ai md sl =
     fadd (fadd (fadd (fadd
       (fmul (severity pa) (D 0.25))
       (fmul (fsub (Num 100) (LightingShadows.score ls)) (D 0.2)))
       (fmul (confidence ai) (D 0.35)))
       (fmul (Num (real (length (Metadata.flags md)))) (Num 5)))
       (fmul (fsub (Num 100) (SemanticLogic.score sl)) (D 0.2))"

text \<open>The classification and its explanation.\<close>

definition classify ::
  "number \<Rightarrow> PixelAnomalies \<Rightarrow> LightingShadows \<Rightarrow> AiArtifacts \<Rightarrow> Metadata \<Rightarrow> resultType \<times> string"
  where
  "classify mscore pa ls ai md =
     (if AiArtifacts.detected ai \<and> gt (confidence ai) (Num 70)
      then (ai_generated,
            ''This image appears to be AI-generated. ''
            @ AiArtifacts.description ai
            @ ''. The analysis detected ''
            @ (if PixelAnomalies.detected pa then ''artificial pixel patterns''
               else ''synthetic characteristics'')
            @ '' with a manipulation score of '' @ String_of mscore @ ''%.'')
      else if gt mscore (Num 50)
      then (edited,
            ''This image shows signs of editing. ''
            @ (if PixelAnomalies.detected pa
               then PixelAnomalies.description pa @ ''. '' else [])
            @ (if \<not> consistent ls
               then LightingShadows.description ls @ ''. '' else [])
            @ (if length (Metadata.flags md) > 0
               then Metadata.description md else []))
      else (real',
            ''This image appears authentic. No significant manipulation detected. Lighting and shadows are consistent, pixel patterns are natural, and metadata checks passed.''))"

text \<open>The body of \<open>analyzeImage\<close> once the five detectors have returned their results
  \<open>pa\<close>, \<open>ls\<close>, \<open>ai\<close>, \<open>md\<close> and \<open>sl\<close>; \<open>rnd\<close> is what is left of the random stream
  for the heatmap.\<close>

definition aggregate ::
  "Browser \<Rightarrow> File \<Rightarrow> ImageData \<Rightarrow> random \<Rightarrow> PixelAnomalies \<Rightarrow> LightingShadows \<Rightarrow> AiArtifacts
     \<Rightarrow> Metadata \<Rightarrow> SemanticLogic \<Rightarrow> error + AnalysisResult" where
  "aggregate env file imageData rnd pa ls ai md sl =
     (let manipulationScore =
            Math_round (weightedSum pa ls ai md sl);
          trustScore = Math_max (Num 0) (fsub (Num 100) manipulationScore);
          (resultType, explanation) = classify manipulationScore pa ls ai md;
          processingTime = Math_round (fsub (Num (endTime env)) (Num (startTime env)));
          heatmap = generateHeatmap imageData (severity pa) (confidence ai) rnd
      in case toISOString (lastModified file) of
           Inl e \<Rightarrow> Inl e
         | Inr isoString \<Rightarrow>
             Inr \<lparr> resultType = resultType,
                   manipulationScore = Math_min (Num 100) (Math_max (Num 0) manipulationScore),
                   trustScore = Math_min (Num 100) (Math_max (Num 0) trustScore),
                   explanation = explanation,
                   detectionDetails =
                     \<lparr> pixelAnomalies = pa,
                       lightingShadows = ls,
                       aiArtifacts = ai,
                       metadata = md,
                       semanticLogic = sl \<rparr>,
                   heatmapData = heatmap,
                   metadataAnalysis =
                     \<lparr> hasExif = True,
                       cameraModel = None,
                       software = None,
                       dateTime = Some isoString,
                       MetadataAnalysis.flags = Metadata.flags md \<rparr>,
                   processingTimeMs = processingTime \<rparr>)"

text \<open>The detectors run one after the other in the order of the array passed to
  \<open>Promise.all\<close>: the pixel anomaly detector makes the first 1000 draws, the AI artifact
  detector the next 1050, and the heatmap the draws after those.\<close>

definition analyzeImage :: "Browser \<Rightarrow> File \<Rightarrow> random \<Rightarrow> error + AnalysisResult" where
  "analyzeImage env file rnd =
     (case loadImageData env file of
        Inl e \<Rightarrow> Inl e
      | Inr imageData \<Rightarrow>
          aggregate env file imageData (\<lambda>i. rnd (2050 + i))
            (analyzePixelAnomalies imageData rnd)
            (analyzeLightingAndShadows imageData)
            (detectAIArtifacts imageData (\<lambda>i. rnd (1000 + i)))
            (analyzeMetadata file)
            (analyzeSemanticLogic imageData))"

section \<open>Specification\<close>

text \<open>The definitions of this section follow the words of the specification; the theorems
  compare them with the program above.\<close>

text \<open>A number lies in \<open>[lo, hi]\<close>; \<open>NaN\<close> lies in no range.\<close>

definition in_range :: "real \<Rightarrow> real \<Rightarrow> number \<Rightarrow> bool" where
  "in_range lo hi x = (case x of NaN \<Rightarrow> False | Num a \<Rightarrow> lo \<le> a \<and> a \<le> hi)"

text \<open>The browser hands out only image data of positive width and height with four bytes
  per pixel (\<open>getImageData\<close> refuses a zero width or height).\<close>

definition wf_browser :: "Browser \<Rightarrow> bool" where
  "wf_browser env \<longleftrightarrow> (\<forall>file img. imagePixels env file = Some img \<longrightarrow> wf_image img)"

subsection \<open>Lighting\<close>

text \<open>Brightness of pixel \<open>k\<close>: the unweighted mean of R, G and B; the brightness sequence
  of a full scan; its population mean and population variance; the consistency score before
  it is rounded to an integer. All of it is double arithmetic: \<open>spec_sum\<close> adds from left to
  right and every operation rounds.\<close>

definition spec_pixelBrightness :: "8 word list \<Rightarrow> nat \<Rightarrow> real" where
  "spec_pixelBrightness d k =
     rnd64 (rnd64 (rnd64 (real (unat (d ! (4 * k))) + real (unat (d ! (4 * k + 1))))
                   + real (unat (d ! (4 * k + 2)))) / 3)"

definition spec_brightness :: "8 word list \<Rightarrow> real list" where
  "spec_brightness d = map (spec_pixelBrightness d) [0..<length d div 4]"

definition spec_sum :: "real list \<Rightarrow> real" where
  "spec_sum xs = foldl (\<lambda>s v. rnd64 (s + v)) 0 xs"

definition spec_mean :: "real list \<Rightarrow> real" where
  "spec_mean xs = rnd64 (spec_sum xs / real (length xs))"

definition spec_variance :: "real list \<Rightarrow> real" where
  "spec_variance xs =
     rnd64 (spec_sum (map (\<lambda>v. rnd64 (rnd64 (v - spec_mean xs) * rnd64 (v - spec_mean xs))) xs)
            / real (length xs))"

definition spec_consistencyScore :: "8 word list \<Rightarrow> real" where
  "spec_consistencyScore d =
     max 0 (rnd64 (100 - rnd64 (rnd64 (rnd64 (sqrt (spec_variance (spec_brightness d))) / 255)
                                * 200)))"

subsection \<open>Scores\<close>

text \<open>Rounding to the nearest integer (halves go up), clamping to \<open>[0, 100]\<close>, the weighted
  sum in double arithmetic (the literals are the doubles nearest to 0.25, 0.2 and 0.35, the
  terms are added from left to right), the manipulation score and the trust score.\<close>

definition spec_round :: "real \<Rightarrow> int" where
  "spec_round a = \<lfloor>a + 1 / 2\<rfloor>"

definition spec_clamp :: "int \<Rightarrow> int" where
  "spec_clamp m = min 100 (max 0 m)"

definition spec_weightedSum :: "real \<Rightarrow> real \<Rightarrow> real \<Rightarrow> nat \<Rightarrow> real \<Rightarrow> real" where
  "spec_weightedSum sev light conf nflags sem =
     rnd64 (rnd64 (rnd64 (rnd64
       (rnd64 (sev * rnd64 0.25)
        + rnd64 (rnd64 (100 - light) * rnd64 0.2))
        + rnd64 (conf * rnd64 0.35))
        + rnd64 (real nflags * 5))
        + rnd64 (rnd64 (100 - sem) * rnd64 0.2))"

definition spec_manipulationScore :: "real \<Rightarrow> real \<Rightarrow> real \<Rightarrow> nat \<Rightarrow> real \<Rightarrow> int" where
  "spec_manipulationScore sev light conf nflags sem =
     spec_round (spec_weightedSum sev light conf nflags sem)"

definition spec_trustScore :: "int \<Rightarrow> int" where
  "spec_trustScore m = max 0 (100 - m)"

subsection \<open>Metadata rules\<close>

text \<open>The six rules in their documented order, each with its flag; the flags of a file are
  those of the rules that trigger, in that order.\<close>

definition spec_rules :: "File \<Rightarrow> (bool \<times> string) list" where
  "spec_rules f =
     [(type f \<noteq> [] \<and> \<not> startsWith (type f) ''image/'', ''Invalid MIME type''),
      (size' f < 1000, ''Suspiciously small file size''),
      (size' f > 52428800, ''Unusually large file size''),
      (lastModified f = 0, ''Missing modification timestamp''),
      (includes' (toLowerCase (name f)) ''screenshot''
         \<or> includes' (toLowerCase (name f)) ''screen shot'', ''Screenshot detected''),
      (includes' (toLowerCase (name f)) ''ai'' \<or> includes' (toLowerCase (name f)) ''generated''
         \<or> includes' (toLowerCase (name f)) ''midjourney''
         \<or> includes' (toLowerCase (name f)) ''dalle'', ''AI-related filename'')]"

definition spec_flags :: "File \<Rightarrow> string list" where
  "spec_flags f = map snd (filter fst (spec_rules f))"

subsection \<open>Heatmap\<close>

text \<open>The number of regions: \<open>floor((severity + confidence) / 20)\<close>, capped at 8.\<close>

definition spec_regionCount :: "number \<Rightarrow> number \<Rightarrow> nat" where
  "spec_regionCount p a =
     (case fadd p a of NaN \<Rightarrow> 0 | Num v \<Rightarrow> nat (min \<lfloor>rnd64 (v / 20)\<rfloor> 8))"

subsection \<open>Neighbours in the image\<close>

text \<open>The up, down, left and right neighbours of the pixel in column \<open>px\<close> and row \<open>py\<close>
  that lie inside the image, and the mean of channel \<open>c\<close> over them.\<close>

definition spec_neighbors2D :: "ImageData \<Rightarrow> nat \<Rightarrow> nat \<Rightarrow> (nat \<times> nat) list" where
  "spec_neighbors2D img px py =
     (if 0 < py then [(px, py - 1)] else [])
     @ (if py + 1 < height img then [(px, py + 1)] else [])
     @ (if 0 < px then [(px - 1, py)] else [])
     @ (if px + 1 < width img then [(px + 1, py)] else [])"

definition spec_channel :: "ImageData \<Rightarrow> nat \<Rightarrow> nat \<times> nat \<Rightarrow> real" where
  "spec_channel img c p = real (unat (data img ! ((snd p * width img + fst p) * 4 + c)))"

definition spec_neighborAverage2D :: "ImageData \<Rightarrow> nat \<Rightarrow> nat \<Rightarrow> nat \<Rightarrow> real" where
  "spec_neighborAverage2D img px py c =
     sum_list (map (spec_channel img c) (spec_neighbors2D img px py))
       / real (length (spec_neighbors2D img px py))"

section \<open>Example inputs\<close>

text \<open>A browser that decodes every file to \<open>img\<close> and takes 12 ms.\<close>

definition browser0 :: "ImageData \<Rightarrow> Browser" where
  "browser0 img =
     \<lparr> canvasContext = True, imagePixels = (\<lambda>_. Some img), startTime = 0, endTime = 12 \<rparr>"

definition file0 :: File where
  "file0 = \<lparr> name = ''vacation.jpg'', type = ''image/jpeg'', size' = 500000, lastModified = 0 \<rparr>"

definition file_suspect :: File where
  "file_suspect =
     \<lparr> name = ''MidJourney Screenshot.PNG'', type = ''text/plain'', size' = 10,
       lastModified = 0 \<rparr>"

text \<open>One pixel; two pixels of brightness 0 and 152; two equal gray pixels; a 2 by 2 image
  whose only bright pixel is the last one of the first row; a row of three dark red and
  three light yellow pixels.\<close>

definition img11 :: ImageData where
  "img11 = \<lparr> width = 1, height = 1, data = [10, 20, 30, 255] \<rparr>"

definition img_c5 :: ImageData where
  "img_c5 = \<lparr> width = 2, height = 1, data = [0, 0, 0, 255, 152, 152, 152, 255] \<rparr>"

definition img_gray :: ImageData where
  "img_gray = \<lparr> width = 2, height = 1, data = [128, 128, 128, 255, 128, 128, 128, 255] \<rparr>"

definition img22 :: ImageData where
  "img22 = \<lparr> width = 2, height = 2,
       data = [0, 0, 0, 255, 90, 90, 90, 255, 0, 0, 0, 255, 0, 0, 0, 255] \<rparr>"

definition img_r3 :: ImageData where
  "img_r3 = \<lparr> width = 6, height = 1,
       data = [80, 0, 0, 255, 80, 0, 0, 255, 80, 0, 0, 255,
               255, 255, 29, 255, 255, 255, 29, 255, 255, 255, 29, 255] \<rparr>"

text \<open>Detector results for the aggregation.\<close>

definition pa_quiet :: PixelAnomalies where
  "pa_quiet = \<lparr> PixelAnomalies.detected = False, severity = Num 0,
       description = ''No significant pixel anomalies detected'' \<rparr>"

definition ls_even :: LightingShadows where
  "ls_even = \<lparr> consistent = True, score = Num 100,
       description = ''Lighting and shadow patterns appear natural and consistent'' \<rparr>"

definition ai_85 :: AiArtifacts where
  "ai_85 = \<lparr> AiArtifacts.detected = True, confidence = Num 85,
       description = ''High symmetry and smoothness patterns typical of GAN/diffusion models detected'' \<rparr>"

definition ai_90 :: AiArtifacts where
  "ai_90 = \<lparr> AiArtifacts.detected = True, confidence = Num 90,
       description = ''High symmetry and smoothness patterns typical of GAN/diffusion models detected'' \<rparr>"

definition ai_46 :: AiArtifacts where
  "ai_46 = \<lparr> AiArtifacts.detected = False, confidence = Num 46,
       description = ''No significant AI generation artifacts found'' \<rparr>"

definition md_clean :: Metadata where
  "md_clean = \<lparr> authentic = True, flags = [], description = ''File metadata appears legitimate'' \<rparr>"

definition sl_diverse :: SemanticLogic where
  "sl_diverse = \<lparr> logical = True, SemanticLogic.score = Num 100,
       description = ''Color distribution and composition appear natural'' \<rparr>"

definition sl_28 :: SemanticLogic where
  "sl_28 = \<lparr> logical = False, SemanticLogic.score = Num 28,
       description = ''Limited color diversity may indicate synthetic generation'' \<rparr>"

definition pa_loud :: PixelAnomalies where
  "pa_loud = \<lparr> PixelAnomalies.detected = True, severity = Num 100,
       description = ''1000 pixel discontinuities detected indicating potential manipulation'' \<rparr>"

definition ls_uneven :: LightingShadows where
  "ls_uneven = \<lparr> consistent = False, score = Num 0,
       description = ''Unusual lighting variations detected suggesting possible compositing'' \<rparr>"

definition ai_100 :: AiArtifacts where
  "ai_100 = \<lparr> AiArtifacts.detected = True, confidence = Num 100,
       description = ''High symmetry and smoothness patterns typical of GAN/diffusion models detected'' \<rparr>"

definition md_two :: Metadata where
  "md_two = \<lparr> authentic = False,
       flags = [''Suspiciously small file size'', ''Screenshot detected''],
       description = ''Metadata concerns: Suspiciously small file size, Screenshot detected'' \<rparr>"

definition sl_narrow :: SemanticLogic where
  "sl_narrow = \<lparr> logical = False, SemanticLogic.score = Num 0,
       description = ''Limited color diversity may indicate synthetic generation'' \<rparr>"

text \<open>The result of analysing \<open>file0\<close>, decoded to \<open>img11\<close>, when every draw is 0.\<close>

definition result0 :: AnalysisResult where
  "result0 =
     \<lparr> resultType = real',
       manipulationScore = Num 36,
       trustScore = Num 64,
       explanation = ''This image appears authentic. No significant manipulation detected. Lighting and shadows are consistent, pixel patterns are natural, and metadata checks passed.'',
       detectionDetails =
         \<lparr> pixelAnomalies =
             \<lparr> PixelAnomalies.detected = False, severity = Num 0,
               description = ''No significant pixel anomalies detected'' \<rparr>,
           lightingShadows =
             \<lparr> consistent = True, score = Num 100,
               description = ''Lighting and shadow patterns appear natural and consistent'' \<rparr>,
           aiArtifacts =
             \<lparr> AiArtifacts.detected = False, confidence = Num 30,
               description = ''No significant AI generation artifacts found'' \<rparr>,
           metadata =
             \<lparr> authentic = False, flags = [''Missing modification timestamp''],
               description = ''Metadata concerns: Missing modification timestamp'' \<rparr>,
           semanticLogic =
             \<lparr> logical = False, SemanticLogic.score = Num 0,
               description = ''Limited color diversity may indicate synthetic generation'' \<rparr> \<rparr>,
       heatmapData =
         \<lparr> regions = [\<lparr> x' = Num 0, y' = Num 0, width' = Num 0.1, height' = Num 0.1,
                          intensity = Num 0.3 \<rparr>] \<rparr>,
       metadataAnalysis =
         \<lparr> hasExif = True, cameraModel = None, software = None,
           dateTime = Some ''1970-01-01T00:00:00.000Z'',
           MetadataAnalysis.flags = [''Missing modification timestamp''] \<rparr>,
       processingTimeMs = Num 12 \<rparr>"

section \<open>Auxiliary lemmas\<close>

subsection \<open>Rounding\<close>

lemma twopow_powr: "twopow e = 2 powr real_of_int e"
  by (simp add: twopow_def powr_real_of_int)

lemma twopow_pos: "0 < twopow e"
  by (simp add: twopow_def)

lemma twopow_add: "twopow (a + b) = twopow a * twopow b"
  by (simp add: twopow_powr powr_add)

lemma twopow_Suc: "twopow (e + 1) = 2 * twopow e"
  using twopow_add [of e 1] by (simp add: twopow_def)

lemma expo_bounds:
  "x \<noteq> 0 \<Longrightarrow> twopow (expo x) \<le> \<bar>x\<bar> \<and> \<bar>x\<bar> < twopow (expo x + 1)"
proof (induction x rule: expo.induct)
  case (1 x)
  consider "2 \<le> \<bar>x\<bar>" | "\<bar>x\<bar> < 1" | "1 \<le> \<bar>x\<bar>" "\<bar>x\<bar> < 2"
    by linarith
  then show ?case
  proof cases
    case 1
    then have e: "expo x = expo (x / 2) + 1"
      using "1.prems" by (subst expo.simps) simp
    have "x / 2 \<noteq> 0"
      using "1.prems" by simp
    with "1.IH"(1) [OF "1.prems" 1]
    have "twopow (expo (x / 2)) \<le> \<bar>x / 2\<bar> \<and> \<bar>x / 2\<bar> < twopow (expo (x / 2) + 1)"
      by blast
    then show ?thesis
      unfolding e twopow_Suc by simp
  next
    case 2
    then have e: "expo x = expo (x * 2) - 1"
      using "1.prems" by (subst expo.simps) simp
    have n2: "\<not> 2 \<le> \<bar>x\<bar>"
      using 2 by simp
    have "x * 2 \<noteq> 0"
      using "1.prems" by simp
    with "1.IH"(2) [OF "1.prems" n2 2]
    have "twopow (expo (x * 2)) \<le> \<bar>x * 2\<bar> \<and> \<bar>x * 2\<bar> < twopow (expo (x * 2) + 1)"
      by blast
    moreover have "twopow (expo (x * 2)) = 2 * twopow (expo (x * 2) - 1)"
      using twopow_Suc [of "expo (x * 2) - 1"] by simp
    ultimately show ?thesis
      unfolding e twopow_Suc by (simp add: abs_mult)
  next
    case 3
    then have "expo x = 0"
      using "1.prems" by (subst expo.simps) simp
    with 3 show ?thesis
      by (simp add: twopow_def)
  qed
qed

lemma expo_less:
  assumes "x \<noteq> 0" "\<bar>x\<bar> < 2 ^ 53"
  shows "expo x \<le> 52"
proof -
  have "twopow (expo x) \<le> \<bar>x\<bar>"
    using expo_bounds [OF assms(1)] by simp
  also have "\<dots> < twopow 53"
    using assms(2) by (simp add: twopow_def)
  finally have "2 powr real_of_int (expo x) < 2 powr real_of_int 53"
    by (simp only: twopow_powr)
  then have "expo x < 53"
    by (simp only: powr_less_cancel_iff)
  then show ?thesis by simp
qed

lemma rhe_of_int: "rhe (of_int k) = k"
  by (simp add: rhe_def)

lemma rhe_error: "\<bar>of_int (rhe y) - y\<bar> \<le> 1 / 2"
proof -
  have "of_int \<lfloor>y\<rfloor> \<le> y" "y < of_int \<lfloor>y\<rfloor> + 1"
    by linarith+
  then show ?thesis
    by (auto simp: rhe_def Let_def)
qed

lemma rhe_ge_int:
  assumes "of_int k \<le> y"
  shows "k \<le> rhe y"
proof -
  from assms have "k \<le> \<lfloor>y\<rfloor>"
    by (simp add: le_floor_iff)
  then show ?thesis
    by (auto simp: rhe_def Let_def)
qed

lemma rhe_le_int:
  assumes "y \<le> of_int k"
  shows "rhe y \<le> k"
proof (cases "y = of_int k")
  case True
  then show ?thesis by (simp add: rhe_of_int)
next
  case False
  with assms have "y < of_int k" by simp
  then have "\<lfloor>y\<rfloor> < k"
    by (simp add: floor_less_iff)
  then show ?thesis
    by (auto simp: rhe_def Let_def)
qed

lemma rnd64_0 [simp]: "rnd64 0 = 0"
  by (simp add: rnd64_def)

lemma rnd64_nonneg: "0 \<le> x \<Longrightarrow> 0 \<le> rnd64 x"
  using twopow_pos [of "expo x - 52"] rhe_ge_int [of 0 "x / twopow (expo x - 52)"]
  by (simp add: rnd64_def)

lemma rnd64_nonpos:
  assumes "x \<le> 0"
  shows "rnd64 x \<le> 0"
proof (cases "x = 0")
  case True
  then show ?thesis by simp
next
  case False
  let ?u = "twopow (expo x - 52)"
  have u: "0 < ?u" by (rule twopow_pos)
  with assms have "x / ?u \<le> of_int 0"
    by (simp add: divide_nonpos_pos)
  then have "rhe (x / ?u) \<le> 0" by (rule rhe_le_int)
  then have "?u * of_int (rhe (x / ?u)) \<le> 0"
    using u by (simp add: mult_le_0_iff)
  with False show ?thesis by (simp add: rnd64_def)
qed

text \<open>The relative error of one rounding is at most \<open>2\<^sup>-\<^sup>5\<^sup>3\<close>.\<close>

lemma rnd64_error: "\<bar>rnd64 x - x\<bar> \<le> \<bar>x\<bar> / 2 ^ 53"
proof (cases "x = 0")
  case True
  then show ?thesis by simp
next
  case False
  let ?u = "twopow (expo x - 52)"
  have u: "0 < ?u" by (rule twopow_pos)
  have "rnd64 x - x = ?u * (of_int (rhe (x / ?u)) - x / ?u)"
    using False u by (simp add: rnd64_def algebra_simps)
  then have "\<bar>rnd64 x - x\<bar> = ?u * \<bar>of_int (rhe (x / ?u)) - x / ?u\<bar>"
    using u by (simp add: abs_mult)
  also have "\<dots> \<le> ?u * (1 / 2)"
    using u rhe_error [of "x / ?u"] by (intro mult_left_mono) simp_all
  also have "\<dots> = twopow (expo x) / 2 ^ 53"
    using twopow_add [of "expo x" "- 53"] twopow_add [of "expo x" "- 52"]
    by (simp add: twopow_def field_simps)
  also have "\<dots> \<le> \<bar>x\<bar> / 2 ^ 53"
    using expo_bounds [OF False] by (simp add: divide_right_mono)
  finally show ?thesis .
qed

text \<open>Rounding does not cross an integer below \<open>2\<^sup>5\<^sup>3\<close>, and such an integer is a
  double.\<close>

lemma small_grid:
  assumes "expo x \<le> 52"
  obtains m :: nat where "twopow (expo x - 52) = inverse (2 ^ m)"
proof
  show "twopow (expo x - 52) = inverse (2 ^ nat (52 - expo x))"
    using assms by (auto simp: twopow_def)
qed

lemma rnd64_le_int:
  assumes "x \<le> of_int n" "\<bar>n\<bar> < 2 ^ 53"
  shows "rnd64 x \<le> of_int n"
proof (cases "x = 0")
  case True
  with assms(1) show ?thesis by simp
next
  case False
  let ?u = "twopow (expo x - 52)"
  have u: "0 < ?u" by (rule twopow_pos)
  show ?thesis
  proof (cases "\<bar>x\<bar> < 2 ^ 53")
    case True
    from small_grid [OF expo_less [OF False True]]
    obtain m :: nat where m: "?u = inverse (2 ^ m)" .
    have "x / ?u \<le> of_int n / ?u"
      using assms(1) u by (simp add: divide_right_mono)
    also have "\<dots> = of_int (n * 2 ^ m)"
      by (simp add: m divide_inverse)
    finally have "rhe (x / ?u) \<le> n * 2 ^ m"
      by (rule rhe_le_int)
    then have "real_of_int (rhe (x / ?u)) \<le> real_of_int (n * 2 ^ m)"
      by (simp only: of_int_le_iff)
    then have "?u * of_int (rhe (x / ?u)) \<le> ?u * of_int (n * 2 ^ m)"
      using u by (simp only: mult_le_cancel_left_pos)
    also have "\<dots> = of_int n"
      by (simp add: m)
    finally show ?thesis
      using False by (simp add: rnd64_def)
  next
    case big: False
    have n: "- (2 ^ 53) < real_of_int n" "real_of_int n < 2 ^ 53"
      using assms(2) by (simp_all add: abs_less_iff flip: of_int_less_iff)
    with assms(1) big have x: "x \<le> - (2 ^ 53)"
      by (simp add: abs_if split: if_splits)
    have "rnd64 x - x \<le> \<bar>rnd64 x - x\<bar>" by simp
    also have "\<dots> \<le> \<bar>x\<bar> / 2 ^ 53" by (rule rnd64_error)
    also have "\<dots> = - x / 2 ^ 53"
      using x by simp
    finally have "rnd64 x \<le> x * (1 - 1 / 2 ^ 53)"
      by (simp add: algebra_simps)
    also have "\<dots> \<le> - (2 ^ 53) * (1 - 1 / 2 ^ 53)"
      using x by (intro mult_right_mono) simp_all
    also have "\<dots> = - (2 ^ 53) + 1"
      by simp
    also have "\<dots> \<le> of_int n"
    proof -
      from assms(2) have "- (2 ^ 53) + 1 \<le> n" by simp
      then have "real_of_int (- (2 ^ 53) + 1) \<le> real_of_int n"
        by (simp only: of_int_le_iff)
      then show ?thesis by simp
    qed
    finally show ?thesis .
  qed
qed

lemma rnd64_ge_int:
  assumes "of_int n \<le> x" "\<bar>n\<bar> < 2 ^ 53"
  shows "of_int n \<le> rnd64 x"
proof (cases "x = 0")
  case True
  with assms(1) show ?thesis by simp
next
  case False
  let ?u = "twopow (expo x - 52)"
  have u: "0 < ?u" by (rule twopow_pos)
  show ?thesis
  proof (cases "\<bar>x\<bar> < 2 ^ 53")
    case True
    from small_grid [OF expo_less [OF False True]]
    obtain m :: nat where m: "?u = inverse (2 ^ m)" .
    have "of_int (n * 2 ^ m) = of_int n / ?u"
      by (simp add: m divide_inverse)
    also have "\<dots> \<le> x / ?u"
      using assms(1) u by (simp add: divide_right_mono)
    finally have "n * 2 ^ m \<le> rhe (x / ?u)"
      by (rule rhe_ge_int)
    then have "real_of_int (n * 2 ^ m) \<le> real_of_int (rhe (x / ?u))"
      by (simp only: of_int_le_iff)
    then have "?u * of_int (n * 2 ^ m) \<le> ?u * of_int (rhe (x / ?u))"
      using u by (simp only: mult_le_cancel_left_pos)
    moreover have "?u * of_int (n * 2 ^ m) = of_int n"
      by (simp add: m)
    ultimately have "of_int n \<le> ?u * of_int (rhe (x / ?u))"
      by (simp only:)
    then show ?thesis
      using False by (simp add: rnd64_def)
  next
    case big: False
    have n: "- (2 ^ 53) < real_of_int n" "real_of_int n < 2 ^ 53"
      using assms(2) by (simp_all add: abs_less_iff flip: of_int_less_iff)
    with assms(1) big have x: "2 ^ 53 \<le> x"
      by (simp add: abs_if split: if_splits)
    have "x - rnd64 x \<le> \<bar>rnd64 x - x\<bar>" by simp
    also have "\<dots> \<le> \<bar>x\<bar> / 2 ^ 53" by (rule rnd64_error)
    also have "\<dots> = x / 2 ^ 53"
      using x by simp
    finally have "x * (1 - 1 / 2 ^ 53) \<le> rnd64 x"
      by (simp add: algebra_simps)
    moreover have "2 ^ 53 * (1 - 1 / 2 ^ 53) \<le> x * (1 - 1 / 2 ^ 53)"
      using x by (intro mult_right_mono) simp_all
    moreover have "2 ^ 53 * (1 - 1 / 2 ^ 53) = (2 ^ 53 - 1 :: real)"
      by simp
    moreover have "of_int n \<le> (2 ^ 53 - 1 :: real)"
    proof -
      from assms(2) have "n \<le> 2 ^ 53 - 1" by simp
      then have "real_of_int n \<le> real_of_int (2 ^ 53 - 1)"
        by (simp only: of_int_le_iff)
      then show ?thesis by simp
    qed
    ultimately show ?thesis by linarith
  qed
qed

lemma rnd64_of_int:
  assumes "\<bar>k\<bar> < 2 ^ 53"
  shows "rnd64 (of_int k) = of_int k"
  using rnd64_le_int [of "of_int k" k] rnd64_ge_int [of k "of_int k"] assms by simp

lemma rnd64_le_100: "x \<le> 100 \<Longrightarrow> rnd64 x \<le> 100"
  using rnd64_le_int [of x 100] by simp

lemma rnd64_le_1: "x \<le> 1 \<Longrightarrow> rnd64 x \<le> 1"
  using rnd64_le_int [of x 1] by simp

text \<open>Integers are rounded to themselves; the rounding of another numeral is evaluated
  from the definitions (\<open>rnd64_unfold\<close>).\<close>

lemma rnd64_numeral [simp]: "(numeral n :: int) < 2 ^ 53 \<Longrightarrow> rnd64 (numeral n) = numeral n"
  using rnd64_of_int [of "numeral n"] by simp

lemma rnd64_neg_numeral [simp]:
  "(numeral n :: int) < 2 ^ 53 \<Longrightarrow> rnd64 (- numeral n) = - numeral n"
  using rnd64_of_int [of "- numeral n"] by simp

lemma rnd64_1 [simp]: "rnd64 1 = 1"
  using rnd64_of_int [of 1] by simp

lemmas rnd64_unfold = rnd64_def expo.simps twopow_def rhe_def Let_def

lemma rnd64_literals:
  "rnd64 0.25 = 1 / 4"
  "rnd64 0.2 = 3602879701896397 / 2 ^ 54"
  "rnd64 0.35 = 3152519739159347 / 2 ^ 53"
  "rnd64 0.3 = 5404319552844595 / 2 ^ 54"
  "rnd64 0.7 = 3152519739159347 / 2 ^ 52"
  by (simp_all add: rnd64_unfold)

text \<open>The rounded square root, from bounds on the squares.\<close>

lemma twopow_less: "twopow a < twopow b \<Longrightarrow> a < b"
  by (simp add: twopow_powr)

lemma expo_eq:
  assumes "twopow e \<le> \<bar>x\<bar>" "\<bar>x\<bar> < twopow (e + 1)"
  shows "expo x = e"
proof -
  have nz: "x \<noteq> 0"
    using assms(1) twopow_pos [of e] by auto
  note b = expo_bounds [OF nz]
  have "twopow e < twopow (expo x + 1)"
    using assms(1) b by linarith
  then have "e < expo x + 1" by (rule twopow_less)
  moreover have "twopow (expo x) < twopow (e + 1)"
    using assms(2) b by linarith
  then have "expo x < e + 1" by (rule twopow_less)
  ultimately show ?thesis by simp
qed

lemma rhe_near:
  assumes "of_int k - 1 / 2 < y" "y < of_int k + 1 / 2"
  shows "rhe y = k"
proof (cases "of_int k \<le> y")
  case True
  with assms(2) have "\<lfloor>y\<rfloor> = k"
    by linarith
  with assms(2) show ?thesis
    by (simp add: rhe_def Let_def)
next
  case False
  with assms(1) have f: "\<lfloor>y\<rfloor> = k - 1"
    by linarith
  have "1 / 2 < y - of_int (k - 1)"
    using assms(1) by simp
  then show ?thesis
    unfolding rhe_def Let_def f by simp
qed

lemma rnd64_sqrt:
  assumes e: "(twopow e)\<^sup>2 \<le> a" "a < (twopow (e + 1))\<^sup>2"
    and k: "(of_int k - 1 / 2)\<^sup>2 < a / (twopow (e - 52))\<^sup>2"
      "a / (twopow (e - 52))\<^sup>2 < (of_int k + 1 / 2)\<^sup>2" "0 < k"
  shows "rnd64 (sqrt a) = twopow (e - 52) * of_int k"
proof -
  let ?u = "twopow (e - 52)"
  have u: "0 < ?u" by (rule twopow_pos)
  have lo: "twopow e \<le> sqrt a"
    using e(1) by (rule real_le_rsqrt)
  have hi: "sqrt a < twopow (e + 1)"
    using twopow_pos [of "e + 1"] e(2) by (intro real_less_lsqrt) simp_all
  have pos: "0 < sqrt a"
    using lo twopow_pos [of e] by linarith
  then have ex: "expo (sqrt a) = e"
    using lo hi by (intro expo_eq) simp_all
  have q: "sqrt a / ?u = sqrt (a / ?u\<^sup>2)"
    using u by (simp add: real_sqrt_divide)
  have "0 \<le> real_of_int k - 1 / 2"
    using k(3) by simp
  then have "real_of_int k - 1 / 2 < sqrt (a / ?u\<^sup>2)"
    using k(1) by (intro real_less_rsqrt)
  moreover have "sqrt (a / ?u\<^sup>2) < real_of_int k + 1 / 2"
    using k(2,3) by (intro real_less_lsqrt) simp_all
  ultimately have "rhe (sqrt a / ?u) = k"
    unfolding q by (rule rhe_near)
  then show ?thesis
    using pos by (simp add: rnd64_def ex)
qed

text \<open>A percentage \<open>(n / N) * 100\<close> of a counter \<open>n \<le> N\<close> lies in \<open>[0, 100]\<close>.\<close>

lemma percent_range:
  assumes "n \<le> N"
  shows "0 \<le> rnd64 (rnd64 (real n / real N) * 100)"
    and "rnd64 (rnd64 (real n / real N) * 100) \<le> 100"
proof -
  have q0: "0 \<le> rnd64 (real n / real N)"
    by (rule rnd64_nonneg) simp
  have "real n / real N \<le> 1"
    using assms by (cases "N = 0") (simp_all add: divide_le_eq_1)
  then have q1: "rnd64 (real n / real N) \<le> 1"
    by (rule rnd64_le_1)
  show "0 \<le> rnd64 (rnd64 (real n / real N) * 100)"
    by (rule rnd64_nonneg) (use q0 in simp)
  show "rnd64 (rnd64 (real n / real N) * 100) \<le> 100"
    by (rule rnd64_le_100) (use q1 in simp)
qed

subsection \<open>Numbers\<close>

lemma Num_plus [simp]: "Num a + Num c = Num (a + c)"
  by (simp add: plus_number_def)

lemma Num_minus [simp]: "Num a - Num c = Num (a - c)"
  by (simp add: minus_number_def)

lemma Num_times [simp]: "Num a * Num c = Num (a * c)"
  by (simp add: times_number_def)

lemma Num_abs [simp]: "\<bar>Num a\<bar> = Num \<bar>a\<bar>"
  by (simp add: abs_number_def)

lemma Num_divide [simp]: "Num a / Num c = (if c = 0 then NaN else Num (a / c))"
  by (simp add: divide_number_def)

lemma NaN_arith [simp]:
  "NaN + x = NaN" "x + NaN = NaN" "NaN - x = NaN" "x - NaN = NaN"
  "NaN * x = NaN" "x * NaN = NaN" "NaN / x = NaN" "x / NaN = NaN" "\<bar>NaN\<bar> = NaN"
  by (cases x; simp add: plus_number_def minus_number_def times_number_def divide_number_def
        abs_number_def)+

lemma D_Num [simp]: "D x = Num (rnd64 x)"
  by (simp add: D_def)

lemma fadd_Num [simp]: "fadd (Num a) (Num c) = Num (rnd64 (a + c))"
  by (simp add: fadd_def)

lemma fsub_Num [simp]: "fsub (Num a) (Num c) = Num (rnd64 (a - c))"
  by (simp add: fsub_def)

lemma fmul_Num [simp]: "fmul (Num a) (Num c) = Num (rnd64 (a * c))"
  by (simp add: fmul_def)

lemma fdiv_Num [simp]: "fdiv (Num a) (Num c) = (if c = 0 then NaN else Num (rnd64 (a / c)))"
  by (simp add: fdiv_def)

lemma NaN_rounded [simp]:
  "fadd NaN x = NaN" "fadd x NaN = NaN" "fsub NaN x = NaN" "fsub x NaN = NaN"
  "fmul NaN x = NaN" "fmul x NaN = NaN" "fdiv NaN x = NaN" "fdiv x NaN = NaN"
  by (cases x; simp add: fadd_def fsub_def fmul_def fdiv_def)+

lemma Math_round_Num [simp]: "Math_round (Num a) = Num (of_int \<lfloor>a + 1 / 2\<rfloor>)"
  by (simp add: Math_round_def)

lemma Math_round_NaN [simp]: "Math_round NaN = NaN"
  by (simp add: Math_round_def)

lemma Math_floor_Num [simp]: "Math_floor (Num a) = Num (of_int \<lfloor>a\<rfloor>)"
  by (simp add: Math_floor_def)

lemma Math_floor_NaN [simp]: "Math_floor NaN = NaN"
  by (simp add: Math_floor_def)

lemma Math_max_Num [simp]: "Math_max (Num a) (Num c) = Num (max a c)"
  by (simp add: Math_max_def)

lemma Math_min_Num [simp]: "Math_min (Num a) (Num c) = Num (min a c)"
  by (simp add: Math_min_def)

lemma Math_max_NaN [simp]: "Math_max NaN x = NaN" "Math_max x NaN = NaN"
  by (cases x; simp add: Math_max_def)+

lemma Math_min_NaN [simp]: "Math_min NaN x = NaN" "Math_min x NaN = NaN"
  by (cases x; simp add: Math_min_def)+

lemma Math_sqrt_Num [simp]:
  "Math_sqrt (Num a) = (if a < 0 then NaN else Num (rnd64 (sqrt a)))"
  by (simp add: Math_sqrt_def)

lemma Math_pow2_Num [simp]: "Math_pow2 (Num a) = Num (rnd64 (a * a))"
  by (simp add: Math_pow2_def)

lemma Math_pow2_NaN [simp]: "Math_pow2 NaN = NaN"
  by (simp add: Math_pow2_def)

lemma Math_sqrt_NaN [simp]: "Math_sqrt NaN = NaN"
  by (simp add: Math_sqrt_def)

lemma in_range_Num [simp]: "in_range lo hi (Num a) \<longleftrightarrow> lo \<le> a \<and> a \<le> hi"
  by (simp add: in_range_def)

lemma in_range_NaN [simp]: "\<not> in_range lo hi NaN"
  by (simp add: in_range_def)

lemma in_range_Num_ex: "in_range lo hi v \<Longrightarrow> \<exists>a. v = Num a"
  by (cases v) simp_all

lemma in_range_not_NaN: "in_range lo hi v \<Longrightarrow> v \<noteq> NaN"
  by (cases v) simp_all

lemma round_bounds: "0 \<le> a \<Longrightarrow> a \<le> 100 \<Longrightarrow> 0 \<le> \<lfloor>a + 1 / 2\<rfloor> \<and> \<lfloor>a + 1 / 2\<rfloor> \<le> 100"
  for a :: real
  by (simp add: floor_le_iff le_floor_iff)

lemma round_in_range: "0 \<le> a \<Longrightarrow> a \<le> 100 \<Longrightarrow> in_range 0 100 (Math_round (Num a))"
  using round_bounds [of a] by simp

text \<open>The clamped trust score of an integral score \<open>m\<close>: the difference \<open>100 - m\<close> is exact
  when it lies in \<open>[0, 100]\<close>, and rounding does not bring it back into that range when it
  lies outside.\<close>

lemma trust_clamp:
  fixes m :: int
  shows "min 100 (max 0 (rnd64 (100 - real_of_int m)))
           = real_of_int (min 100 (max 0 (100 - m)))"
proof -
  consider "100 < m" | "0 \<le> m" "m \<le> 100" | "m < 0"
    by linarith
  then show ?thesis
  proof cases
    case 1
    then have "100 - real_of_int m \<le> 0" by simp
    then have "rnd64 (100 - real_of_int m) \<le> 0" by (rule rnd64_nonpos)
    with 1 show ?thesis by (simp add: max_def)
  next
    case 2
    have "rnd64 (real_of_int (100 - m)) = real_of_int (100 - m)"
      by (rule rnd64_of_int) (use 2 in simp)
    with 2 show ?thesis by (simp add: min_def max_def)
  next
    case 3
    then have "real_of_int 100 \<le> 100 - real_of_int m" by simp
    then have "real_of_int 100 \<le> rnd64 (100 - real_of_int m)"
      by (rule rnd64_ge_int) simp
    with 3 show ?thesis by (simp add: min_def max_def)
  qed
qed

subsection \<open>Counting loops\<close>

lemma fold_count:
  "fold (\<lambda>i cnt. if P i then cnt + 1 else cnt) xs (c::nat) = c + length (filter P xs)"
  by (induction xs arbitrary: c) auto

lemma fold_count_le:
  "fold (\<lambda>i cnt. if P i then cnt + 1 else cnt) [0..<n] (0::nat) \<le> n"
proof -
  have "length (filter P [0..<n]) \<le> length [0..<n]"
    by (rule length_filter_le)
  then show ?thesis by (simp add: fold_count)
qed

lemma fold_keep: "fold (\<lambda>i cnt. cnt) xs c = c"
  by (induction xs) simp_all

lemma fold_Suc: "fold (\<lambda>i. Suc) xs c = c + length xs"
  by (induction xs arbitrary: c) simp_all

subsection \<open>Sampling detectors\<close>

lemma severity_in_range: "in_range 0 100 (severity (analyzePixelAnomalies img rnd))"
proof -
  define c where "c = fold (\<lambda>i cnt.
      if gt (neighborDiff img (randomIndex (data img) (rnd i))) (Num 100)
      then cnt + 1 else cnt) [0..<sampleSize] (0::nat)"
  have "c \<le> sampleSize"
    unfolding c_def by (rule fold_count_le)
  have "severity (analyzePixelAnomalies img rnd)
      = Math_round (Num (rnd64 (rnd64 (real c / real sampleSize) * 100)))"
    by (simp add: analyzePixelAnomalies_def Let_def c_def sampleSize_def)
  moreover have "in_range 0 100 (Math_round (Num (rnd64 (rnd64 (real c / real sampleSize) * 100))))"
    by (rule round_in_range) (rule percent_range [OF \<open>c \<le> sampleSize\<close>])+
  ultimately show ?thesis by (simp only:)
qed

lemma confidence_in_range: "in_range 0 100 (confidence (detectAIArtifacts img rnd))"
proof -
  define s where "s = fold (\<lambda>i cnt. if lt (rowDiff img (rnd i)) (Num 30) then cnt + 1 else cnt)
              [0..<sampleRows] (0::nat)"
  define m where "m = fold (\<lambda>i cnt.
                    if lt (neighborDiff img
                             (randomIndex (data img) (rnd (sampleRows + i)))) (Num 20)
                    then cnt + 1 else cnt)
              [0..<1000] (0::nat)"
  define sp where "sp = rnd64 (rnd64 (real s / real sampleRows) * 100)"
  define mp where "mp = rnd64 (rnd64 (real m / real (1000::nat)) * 100)"
  have "s \<le> sampleRows"
    unfolding s_def by (rule fold_count_le)
  then have sp: "0 \<le> sp" "sp \<le> 100"
    unfolding sp_def by (rule percent_range)+
  have "m \<le> 1000"
    unfolding m_def by (rule fold_count_le)
  then have mp: "0 \<le> mp" "mp \<le> 100"
    unfolding mp_def by (rule percent_range)+
  have eq: "confidence (detectAIArtifacts img rnd)
      = Math_round (Num (rnd64 (rnd64 (sp * rnd64 0.3) + rnd64 (mp * rnd64 0.7))))"
    by (simp add: detectAIArtifacts_def Let_def s_def m_def sp_def mp_def sampleRows_def)
  have a0: "0 \<le> rnd64 (sp * rnd64 0.3)"
    by (rule rnd64_nonneg) (use sp in \<open>simp add: rnd64_literals\<close>)
  have "sp * rnd64 0.3 \<le> real_of_int 30"
    using sp by (simp add: rnd64_literals)
  then have "rnd64 (sp * rnd64 0.3) \<le> real_of_int 30"
    by (rule rnd64_le_int) simp
  then have a1: "rnd64 (sp * rnd64 0.3) \<le> 30"
    by simp
  have b0: "0 \<le> rnd64 (mp * rnd64 0.7)"
    by (rule rnd64_nonneg) (use mp in \<open>simp add: rnd64_literals\<close>)
  have "mp * rnd64 0.7 \<le> real_of_int 70"
    using mp by (simp add: rnd64_literals)
  then have "rnd64 (mp * rnd64 0.7) \<le> real_of_int 70"
    by (rule rnd64_le_int) simp
  then have b1: "rnd64 (mp * rnd64 0.7) \<le> 70"
    by simp
  have "in_range 0 100
          (Math_round (Num (rnd64 (rnd64 (sp * rnd64 0.3) + rnd64 (mp * rnd64 0.7)))))"
  proof (rule round_in_range)
    show "0 \<le> rnd64 (rnd64 (sp * rnd64 0.3) + rnd64 (mp * rnd64 0.7))"
      by (rule rnd64_nonneg) (use a0 b0 in simp)
    show "rnd64 (rnd64 (sp * rnd64 0.3) + rnd64 (mp * rnd64 0.7)) \<le> 100"
      by (rule rnd64_le_100) (use a1 b1 in simp)
  qed
  then show ?thesis by (simp only: eq)
qed

lemma semantic_score_in_range: "in_range 0 100 (SemanticLogic.score (analyzeSemanticLogic img))"
proof -
  define k where "k = length (semantic_loop (data img) 0 [])"
  have eq: "SemanticLogic.score (analyzeSemanticLogic img)
      = Math_round (Num (min 100 (rnd64 (rnd64 (real k / 250) * 100))))"
    by (simp add: analyzeSemanticLogic_def Let_def k_def)
  have "0 \<le> rnd64 (real k / 250)"
    by (rule rnd64_nonneg) simp
  then have "0 \<le> rnd64 (rnd64 (real k / 250) * 100)"
    by (intro rnd64_nonneg) simp
  then have "in_range 0 100 (Math_round (Num (min 100 (rnd64 (rnd64 (real k / 250) * 100)))))"
    by (intro round_in_range) simp_all
  then show ?thesis by (simp only: eq)
qed

lemma randomIndex_range:
  assumes "length d = 4 * k" "0 \<le> u" "u < 1" "0 < k"
  shows "\<exists>j < k. randomIndex d u = 4 * int j"
proof -
  have "0 \<le> u * real k"
    using assms(2) by simp
  then have f0: "0 \<le> \<lfloor>u * real k\<rfloor>"
    by simp
  have "u * real k < real k"
    using assms(3,4) by simp
  then have f1: "\<lfloor>u * real k\<rfloor> < int k"
    by linarith
  have "randomIndex d u = \<lfloor>u * real k\<rfloor> * 4"
    by (simp add: randomIndex_def assms(1))
  moreover have "nat \<lfloor>u * real k\<rfloor> < k"
    using f0 f1 by linarith
  moreover have "\<lfloor>u * real k\<rfloor> * 4 = 4 * int (nat \<lfloor>u * real k\<rfloor>)"
    using f0 by simp
  ultimately show ?thesis
    by metis
qed

lemma neighbors_nonempty:
  assumes "length d = 4 * k" "2 \<le> k" "j < k"
  shows "neighbors d (4 * int j) w \<noteq> []"
proof (cases "j = 0")
  case True
  with assms show ?thesis
    by (simp add: neighbors_def)
next
  case False
  with assms show ?thesis
    by (simp add: neighbors_def)
qed

lemma getNeighborAverage_Num:
  assumes "neighbors d i w \<noteq> []"
  shows "r' (getNeighborAverage d i w) \<noteq> NaN \<and> g' (getNeighborAverage d i w) \<noteq> NaN
       \<and> b' (getNeighborAverage d i w) \<noteq> NaN"
  using assms by (simp add: getNeighborAverage_def Let_def)

lemma getNeighborAverage_NaN:
  assumes "neighbors d i w = []"
  shows "getNeighborAverage d i w = \<lparr> r' = NaN, g' = NaN, b' = NaN \<rparr>"
  using assms by (simp add: getNeighborAverage_def Let_def)

lemma fold_add_sum:
  "fold (\<lambda>i acc. acc + f i) xs (a::nat) = a + sum_list (map f xs)"
  by (induction xs arbitrary: a) simp_all

lemma getNeighborAverage_mean:
  assumes "neighbors d i w \<noteq> []"
  shows "r' (getNeighborAverage d i w)
           = Num (rnd64 (real (\<Sum>j\<leftarrow>neighbors d i w. rd_or0 d j)
                         / real (length (neighbors d i w))))"
    and "g' (getNeighborAverage d i w)
           = Num (rnd64 (real (\<Sum>j\<leftarrow>neighbors d i w. rd_or0 d (j + 1))
                         / real (length (neighbors d i w))))"
    and "b' (getNeighborAverage d i w)
           = Num (rnd64 (real (\<Sum>j\<leftarrow>neighbors d i w. rd_or0 d (j + 2))
                         / real (length (neighbors d i w))))"
  using assms by (simp_all add: getNeighborAverage_def Let_def fold_add_sum)

lemma zero_count_zero_sum:
  "neighbors d i w = [] \<Longrightarrow> fold (\<lambda>j acc. acc + rd_or0 d (j + c)) (neighbors d i w) 0 = 0"
  by simp

lemma zero_length_zero_sum:
  "length brightness = 0 \<Longrightarrow> fold (\<lambda>b a. fadd a b) brightness (Num 0) = Num 0"
  by simp

lemma filter4:
  "filter P [a, b, c, d]
     = (if P a then [a] else []) @ (if P b then [b] else [])
       @ (if P c then [c] else []) @ (if P d then [d] else [])"
  by simp

text \<open>Away from the first and the last column the program's neighbours are the neighbours
  in the image, in the same order.\<close>

lemma neighbors_inner_columns:
  assumes "wf_image img" "0 < px" "px + 1 < width img" "py < height img"
  shows "neighbors (data img) (int ((py * width img + px) * 4)) (width img)
           = map (\<lambda>p. int ((snd p * width img + fst p) * 4)) (spec_neighbors2D img px py)"
proof -
  let ?w = "width img" and ?h = "height img"
  have len: "length (data img) = ?w * ?h * 4"
    using assms(1) by (simp add: wf_image_def)
  have row: "py * ?w + ?w \<le> ?w * ?h"
  proof -
    have "Suc py * ?w \<le> ?h * ?w"
      using assms(4) by (intro mult_le_mono1) simp
    then show ?thesis by (simp add: mult.commute)
  qed
  have left: "int ((py * ?w + px) * 4) - 4 = int ((py * ?w + (px - 1)) * 4)"
    using assms(2) by (cases px) (simp_all add: algebra_simps)
  have right_in: "(py * ?w + (px + 1)) * 4 < ?w * ?h * 4"
    using row assms(3) by simp
  have up: "0 < py \<Longrightarrow> int ((py * ?w + px) * 4) - int ?w * 4 = int (((py - 1) * ?w + px) * 4)"
    by (cases py) (simp_all add: algebra_simps)
  have up_out: "\<not> 0 < py \<Longrightarrow> int ((py * ?w + px) * 4) - int ?w * 4 < 0"
    using assms(3) by simp
  have down_in: "py + 1 < ?h \<Longrightarrow> ((py + 1) * ?w + px) * 4 < ?w * ?h * 4"
  proof -
    assume "py + 1 < ?h"
    then have "Suc (Suc py) * ?w \<le> ?h * ?w"
      by (intro mult_le_mono1) simp
    then show ?thesis
      using assms(3) by (simp add: mult.commute)
  qed
  have down_out: "\<not> py + 1 < ?h \<Longrightarrow> \<not> (py * ?w + px) * 4 + ?w * 4 < ?w * ?h * 4"
  proof -
    assume "\<not> py + 1 < ?h"
    with assms(4) have "?h = py + 1" by simp
    then show ?thesis by (simp add: algebra_simps)
  qed
  let ?idx = "int ((py * ?w + px) * 4)"
  let ?len = "int (length (data img))"
  have idx_in: "(py * ?w + px) * 4 < ?w * ?h * 4"
    using row assms(3) by simp
  have idx_lt: "?idx < ?len"
    using idx_in unfolding len by (simp only: of_nat_less_iff simp_thms)
  have c_up: "(0 \<le> ?idx - int ?w * 4 \<and> ?idx - int ?w * 4 < ?len) \<longleftrightarrow> 0 < py"
  proof (cases "0 < py")
    case True
    have a: "0 \<le> ?idx - int ?w * 4"
      unfolding up [OF True] by (rule of_nat_0_le_iff)
    have b: "?idx - int ?w * 4 < ?len"
      using idx_lt of_nat_0_le_iff [of ?w, where ?'a = int] by linarith
    from a b True show ?thesis by blast
  next
    case False
    from up_out [OF False] have "\<not> 0 \<le> ?idx - int ?w * 4" by linarith
    with False show ?thesis by blast
  qed
  have down: "?idx + int ?w * 4 = int (((py + 1) * ?w + px) * 4)"
    by (simp add: algebra_simps)
  have c_down: "(0 \<le> ?idx + int ?w * 4 \<and> ?idx + int ?w * 4 < ?len) \<longleftrightarrow> py + 1 < ?h"
  proof (cases "py + 1 < ?h")
    case True
    have a: "0 \<le> ?idx + int ?w * 4"
      unfolding down by (rule of_nat_0_le_iff)
    from down_in [OF True] have b: "?idx + int ?w * 4 < ?len"
      unfolding len down by (simp only: of_nat_less_iff simp_thms)
    from a b True show ?thesis by blast
  next
    case False
    from down_out [OF False] have "\<not> int ((py * ?w + px) * 4 + ?w * 4) < ?len"
      unfolding len by (simp only: of_nat_less_iff simp_thms)
    moreover have "int ((py * ?w + px) * 4 + ?w * 4) = ?idx + int ?w * 4"
      by simp
    ultimately have "\<not> ?idx + int ?w * 4 < ?len"
      by (simp only: simp_thms)
    with False show ?thesis by blast
  qed
  have c_left: "0 \<le> ?idx - 4 \<and> ?idx - 4 < ?len"
  proof
    show "0 \<le> ?idx - 4"
      unfolding left by (rule of_nat_0_le_iff)
    show "?idx - 4 < ?len"
      using idx_lt by linarith
  qed
  have right: "?idx + 4 = int ((py * ?w + (px + 1)) * 4)"
    by (simp add: algebra_simps)
  have c_right: "0 \<le> ?idx + 4 \<and> ?idx + 4 < ?len"
  proof
    show "0 \<le> ?idx + 4"
      unfolding right by (rule of_nat_0_le_iff)
    from right_in show "?idx + 4 < ?len"
      unfolding len right by (simp only: of_nat_less_iff simp_thms)
  qed
  have "neighbors (data img) ?idx ?w
      = (if 0 < py then [?idx - int ?w * 4] else [])
        @ (if py + 1 < ?h then [?idx + int ?w * 4] else [])
        @ [?idx - 4] @ [?idx + 4]"
    unfolding neighbors_def filter4 by (simp only: c_up c_down c_left c_right simp_thms if_True)
  also have "\<dots> = (if 0 < py then [int (((py - 1) * ?w + px) * 4)] else [])
        @ (if py + 1 < ?h then [int (((py + 1) * ?w + px) * 4)] else [])
        @ [int ((py * ?w + (px - 1)) * 4)] @ [int ((py * ?w + (px + 1)) * 4)]"
  proof (cases "0 < py")
    case True
    show ?thesis
      by (simp only: up [OF True] down left right)
  next
    case False
    then show ?thesis
      by (simp only: down left right if_False)
  qed
  also have "\<dots> = map (\<lambda>p. int ((snd p * ?w + fst p) * 4)) (spec_neighbors2D img px py)"
    unfolding spec_neighbors2D_def using assms(2,3)
    by (simp only: if_True map_append list.map fst_conv snd_conv if_distrib [of "map _"]
          simp_thms)
  finally show ?thesis .
qed

text \<open>In the first column the program counts the last pixel of the row above as a
  neighbour.\<close>

lemma neighbors_first_column:
  assumes "wf_image img" "0 < py" "py < height img"
  shows "int (py * width img * 4) - 4
           \<in> set (neighbors (data img) (int (py * width img * 4)) (width img))"
proof -
  let ?w = "width img" and ?h = "height img"
  have len: "length (data img) = ?w * ?h * 4" and w: "0 < ?w"
    using assms(1) by (simp_all add: wf_image_def)
  have "1 * 1 \<le> py * ?w"
    using assms(2) w by (intro mult_le_mono) simp_all
  then have "4 \<le> py * ?w * 4"
    by simp
  then have lo: "0 \<le> int (py * ?w * 4) - 4"
    by linarith
  have "py * ?w < ?h * ?w"
    using assms(3) w by simp
  then have "py * ?w * 4 < ?w * ?h * 4"
    by (simp add: mult.commute)
  then have "int (py * ?w * 4) < int (length (data img))"
    unfolding len by (simp only: of_nat_less_iff)
  then have hi: "int (py * ?w * 4) - 4 < int (length (data img))"
    by linarith
  from lo hi show ?thesis
    unfolding neighbors_def by (simp only: filter4 if_True simp_thms) simp
qed

subsection \<open>Lighting\<close>

lemma rd_in_range: "i < length d \<Longrightarrow> rd d (int i) = Num (real (unat (d ! i)))"
  by (simp add: rd_def)

lemma brightness_loop_eq:
  "4 dvd length d \<Longrightarrow> 4 dvd i \<Longrightarrow> i \<le> length d \<Longrightarrow>
   brightness_loop d i acc
     = acc @ map (\<lambda>k. Num (spec_pixelBrightness d k)) [i div 4..<length d div 4]"
proof (induction d i acc rule: brightness_loop.induct)
  case (1 d i acc)
  show ?case
  proof (cases "i < length d")
    case False
    with "1.prems" have "i = length d" by simp
    with False show ?thesis
      by (subst brightness_loop.simps) simp
  next
    case True
    from "1.prems" True have le: "i + 4 \<le> length d"
      by (elim dvdE) auto
    have dv: "4 dvd i + 4"
      using "1.prems"(2) by simp
    have k: "4 * (i div 4) = i"
      using "1.prems"(2) by simp
    have lt: "i div 4 < length d div 4"
      using "1.prems" True by (elim dvdE) auto
    have next_div: "(i + 4) div 4 = Suc (i div 4)"
      by simp
    have reads: "rd d (int i) = Num (real (unat (d ! i)))"
      "rd d (int i + 1) = Num (real (unat (d ! (i + 1))))"
      "rd d (int i + 2) = Num (real (unat (d ! (i + 2))))"
      using rd_in_range [of i d] rd_in_range [of "i + 1" d] rd_in_range [of "i + 2" d] le
      by (simp_all add: add.commute)
    have px: "fdiv (fadd (fadd (rd d (int i)) (rd d (int i + 1))) (rd d (int i + 2))) (Num 3)
        = Num (spec_pixelBrightness d (i div 4))"
      by (simp add: reads spec_pixelBrightness_def k)
    have "brightness_loop d i acc
        = brightness_loop d (i + 4) (acc @ [Num (spec_pixelBrightness d (i div 4))])"
      using True by (simp add: brightness_loop.simps [of d i acc] px)
    also have "\<dots> = (acc @ [Num (spec_pixelBrightness d (i div 4))])
        @ map (\<lambda>k. Num (spec_pixelBrightness d k)) [(i + 4) div 4..<length d div 4]"
      using "1.IH" [OF True "1.prems"(1) dv le] by (simp only: px)
    also have "\<dots> = acc @ map (\<lambda>k. Num (spec_pixelBrightness d k)) [i div 4..<length d div 4]"
      using lt by (simp add: next_div upt_conv_Cons)
    finally show ?thesis .
  qed
qed

lemma brightness_loop_spec:
  "4 dvd length d \<Longrightarrow> brightness_loop d 0 [] = map Num (spec_brightness d)"
  using brightness_loop_eq [of d 0 "[]"] by (simp add: spec_brightness_def)

lemma fold_sum_Num:
  "fold (\<lambda>b a. fadd a b) (map Num xs) (Num s) = Num (foldl (\<lambda>s v. rnd64 (s + v)) s xs)"
  by (induction xs arbitrary: s) simp_all

lemma fold_squares_Num:
  "fold (\<lambda>val sum. fadd sum (Math_pow2 (fsub val (Num m)))) (map Num xs) (Num s)
     = Num (foldl (\<lambda>s v. rnd64 (s + v)) s
              (map (\<lambda>v. rnd64 (rnd64 (v - m) * rnd64 (v - m))) xs))"
  by (induction xs arbitrary: s) simp_all

lemma foldl_rounded_nonneg:
  "0 \<le> s \<Longrightarrow> (\<And>v. v \<in> set xs \<Longrightarrow> 0 \<le> v) \<Longrightarrow> 0 \<le> foldl (\<lambda>s v. rnd64 (s + v)) s xs"
proof (induction xs arbitrary: s)
  case Nil
  then show ?case by simp
next
  case (Cons a xs)
  have "0 \<le> rnd64 (s + a)"
    by (rule rnd64_nonneg) (use Cons.prems in simp)
  then show ?case
    using Cons.prems(2) by (simp add: Cons.IH)
qed

lemma spec_variance_nonneg: "0 \<le> spec_variance xs"
proof -
  have "0 \<le> spec_sum (map (\<lambda>v. rnd64 (rnd64 (v - spec_mean xs) * rnd64 (v - spec_mean xs))) xs)"
    unfolding spec_sum_def
    by (rule foldl_rounded_nonneg) (auto intro: rnd64_nonneg)
  then show ?thesis
    unfolding spec_variance_def by (intro rnd64_nonneg divide_nonneg_nonneg) simp_all
qed

lemma lighting_on_wf:
  assumes "4 dvd length (data img)" "data img \<noteq> []"
  shows "LightingShadows.score (analyzeLightingAndShadows img)
           = Math_round (Num (spec_consistencyScore (data img)))"
    and "consistent (analyzeLightingAndShadows img) \<longleftrightarrow> spec_consistencyScore (data img) > 40"
proof -
  let ?bs = "spec_brightness (data img)"
  from assms(1) obtain k where k: "length (data img) = 4 * k" ..
  have "length (data img) \<noteq> 0"
    using assms(2) by simp
  with k have "k \<noteq> 0" by simp
  with k have len: "length ?bs \<noteq> 0"
    by (simp add: spec_brightness_def)
  have br: "brightness_loop (data img) 0 [] = map Num ?bs"
    using assms(1) by (rule brightness_loop_spec)
  have mean: "fdiv (fold (\<lambda>b a. fadd a b) (map Num ?bs) (Num 0)) (Num (real (length ?bs)))
      = Num (spec_mean ?bs)"
    using len by (simp add: fold_sum_Num spec_mean_def spec_sum_def)
  have var: "fdiv (fold (\<lambda>val sum. fadd sum (Math_pow2 (fsub val (Num (spec_mean ?bs)))))
        (map Num ?bs) (Num 0)) (Num (real (length ?bs))) = Num (spec_variance ?bs)"
    using len by (simp add: fold_squares_Num spec_variance_def spec_sum_def)
  have nn: "\<not> spec_variance ?bs < 0"
    using spec_variance_nonneg [of ?bs] by simp
  show "LightingShadows.score (analyzeLightingAndShadows img)
           = Math_round (Num (spec_consistencyScore (data img)))"
    by (simp add: analyzeLightingAndShadows_def Let_def br mean var nn spec_consistencyScore_def
          del: Math_round_Num)
  show "consistent (analyzeLightingAndShadows img) \<longleftrightarrow> spec_consistencyScore (data img) > 40"
    by (simp add: analyzeLightingAndShadows_def Let_def br mean var nn spec_consistencyScore_def)
qed

lemma spec_consistencyScore_range:
  "0 \<le> spec_consistencyScore d \<and> spec_consistencyScore d \<le> 100"
proof -
  let ?t = "rnd64 (rnd64 (rnd64 (sqrt (spec_variance (spec_brightness d))) / 255) * 200)"
  have "0 \<le> rnd64 (sqrt (spec_variance (spec_brightness d)))"
    by (rule rnd64_nonneg) (simp add: spec_variance_nonneg)
  then have "0 \<le> rnd64 (rnd64 (sqrt (spec_variance (spec_brightness d))) / 255)"
    by (intro rnd64_nonneg) simp
  then have "0 \<le> ?t"
    by (intro rnd64_nonneg) simp
  then have "rnd64 (100 - ?t) \<le> 100"
    by (intro rnd64_le_100) simp
  then show ?thesis
    by (simp add: spec_consistencyScore_def)
qed

lemma lighting_score_in_range:
  assumes "wf_image img"
  shows "in_range 0 100 (LightingShadows.score (analyzeLightingAndShadows img))"
proof -
  from assms have d: "4 dvd length (data img)" "data img \<noteq> []"
    by (auto simp: wf_image_def)
  show ?thesis
    using spec_consistencyScore_range [of "data img"]
    by (simp only: lighting_on_wf(1) [OF d] round_in_range)
qed

lemma detectors_in_range:
  assumes "wf_image img"
  shows "in_range 0 100 (severity (analyzePixelAnomalies img rnd))"
    and "in_range 0 100 (LightingShadows.score (analyzeLightingAndShadows img))"
    and "in_range 0 100 (confidence (detectAIArtifacts img rnd'))"
    and "in_range 0 100 (SemanticLogic.score (analyzeSemanticLogic img))"
  using assms
  by (simp_all add: severity_in_range lighting_score_in_range confidence_in_range
        semantic_score_in_range)

subsection \<open>Strings and metadata\<close>

lemma startsWith_iff: "startsWith s p \<longleftrightarrow> (\<exists>ss. s = p @ ss)"
proof
  assume "startsWith s p"
  then have "s = p @ drop (length p) s"
    by (metis append_take_drop_id startsWith_def)
  then show "\<exists>ss. s = p @ ss" ..
next
  assume "\<exists>ss. s = p @ ss"
  then show "startsWith s p"
    by (auto simp: startsWith_def)
qed

lemma includes'_iff: "includes' s p \<longleftrightarrow> (\<exists>ps ss. s = ps @ p @ ss)"
proof (induction s)
  case Nil
  then show ?case by auto
next
  case (Cons c cs)
  have "take (length p) (c # cs) = p \<longleftrightarrow> (\<exists>ss. c # cs = p @ ss)"
    using startsWith_iff [of "c # cs" p] by (simp add: startsWith_def)
  moreover have "(\<exists>ps ss. c # cs = ps @ p @ ss)
      \<longleftrightarrow> (\<exists>ss. c # cs = p @ ss) \<or> (\<exists>ps ss. cs = ps @ p @ ss)"
  proof
    assume "\<exists>ps ss. c # cs = ps @ p @ ss"
    then obtain ps ss where e: "c # cs = ps @ p @ ss" by blast
    show "(\<exists>ss. c # cs = p @ ss) \<or> (\<exists>ps ss. cs = ps @ p @ ss)"
    proof (cases ps)
      case Nil
      with e show ?thesis by auto
    next
      case (Cons a ps')
      with e have "cs = ps' @ p @ ss" by simp
      then show ?thesis by blast
    qed
  next
    assume "(\<exists>ss. c # cs = p @ ss) \<or> (\<exists>ps ss. cs = ps @ p @ ss)"
    then show "\<exists>ps ss. c # cs = ps @ p @ ss"
    proof
      assume "\<exists>ss. c # cs = p @ ss"
      then obtain ss where "c # cs = [] @ p @ ss" by auto
      then show ?thesis by blast
    next
      assume "\<exists>ps ss. cs = ps @ p @ ss"
      then obtain ps ss where "cs = ps @ p @ ss" by blast
      then have "c # cs = (c # ps) @ p @ ss" by simp
      then show ?thesis by blast
    qed
  qed
  ultimately show ?case
    using Cons.IH by simp
qed

lemma missing_timestamp_flag:
  "lastModified f = 0
   \<Longrightarrow> ''Missing modification timestamp'' \<in> set (Metadata.flags (analyzeMetadata f))"
  by (simp add: analyzeMetadata_def Let_def)

lemma formatISO_0: "formatISO 0 = ''1970-01-01T00:00:00.000Z''"
  by code_simp

lemma toISOString_in_range:
  "\<bar>t\<bar> \<le> 8640000000000000 \<Longrightarrow> \<exists>s. toISOString t = Inr s"
  by (simp add: toISOString_def)

subsection \<open>Heatmap\<close>

lemma heatmap_loop_eq:
  "heatmap_loop bound rnd i acc
     = acc @ map (region rnd) [i..<(case bound of NaN \<Rightarrow> 0 | Num m \<Rightarrow> nat \<lceil>m\<rceil>)]"
proof (induction bound rnd i acc rule: heatmap_loop.induct)
  case (1 bound rnd i acc)
  show ?case
  proof (cases "lt (Num (real i)) bound")
    case True
    then obtain m where m: "bound = Num m" "real i < m"
      by (cases bound) auto
    then have lt: "i < nat \<lceil>m\<rceil>"
      by linarith
    have "heatmap_loop bound rnd i acc = heatmap_loop bound rnd (i + 1) (acc @ [region rnd i])"
      using True by (subst heatmap_loop.simps) simp
    also have "\<dots> = (acc @ [region rnd i]) @ map (region rnd) [i + 1..<nat \<lceil>m\<rceil>]"
      using "1.IH" [OF True] by (simp add: m(1))
    also have "\<dots> = acc @ map (region rnd) [i..<nat \<lceil>m\<rceil>]"
      using lt by (simp add: upt_conv_Cons)
    finally show ?thesis
      by (simp add: m(1))
  next
    case False
    have e: "[i..<(case bound of NaN \<Rightarrow> 0 | Num m \<Rightarrow> nat \<lceil>m\<rceil>)] = []"
    proof (cases bound)
      case NaN
      then show ?thesis by simp
    next
      case (Num m)
      with False have "m \<le> real i" by simp
      then have "nat \<lceil>m\<rceil> \<le> i" by linarith
      with Num show ?thesis by simp
    qed
    show ?thesis
      using False by (subst heatmap_loop.simps) (simp add: e)
  qed
qed

lemma generateHeatmap_regions:
  "regions (generateHeatmap img p a rnd) = map (region rnd) [0..<spec_regionCount p a]"
proof (cases "fadd p a")
  case NaN
  then show ?thesis
    by (simp add: generateHeatmap_def Let_def heatmap_loop_eq spec_regionCount_def)
next
  case (Num v)
  have "nat \<lceil>min (real_of_int \<lfloor>rnd64 (v / 20)\<rfloor>) 8\<rceil> = nat (min \<lfloor>rnd64 (v / 20)\<rfloor> 8)"
    by (simp add: min_def)
  with Num show ?thesis
    by (simp add: generateHeatmap_def Let_def heatmap_loop_eq spec_regionCount_def)
qed

lemma spec_regionCount_le: "spec_regionCount p a \<le> 8"
  by (cases "fadd p a") (simp_all add: spec_regionCount_def)

lemma region_bounds:
  assumes "valid_random rnd"
  shows "in_range 0 1 (x' (region rnd i))" "in_range 0 1 (y' (region rnd i))"
    "in_range 0 1 (width' (region rnd i))" "in_range 0 1 (height' (region rnd i))"
    "in_range 0 1 (intensity (region rnd i))"
    "lt (x' (region rnd i)) (Num 0.8)" "lt (width' (region rnd i)) (Num 0.25)"
proof -
  have u: "0 \<le> rnd k \<and> rnd k < 1" for k
    using assms by (simp add: valid_random_def)
  show "in_range 0 1 (x' (region rnd i))"
    using u [of "5 * i"] by (simp add: region_def)
  show "in_range 0 1 (y' (region rnd i))"
    using u [of "5 * i + 1"] by (simp add: region_def)
  show "in_range 0 1 (width' (region rnd i))"
    using u [of "5 * i + 2"] by (simp add: region_def)
  show "in_range 0 1 (height' (region rnd i))"
    using u [of "5 * i + 3"] by (simp add: region_def)
  show "in_range 0 1 (intensity (region rnd i))"
    using u [of "5 * i + 4"] by (simp add: region_def)
  show "lt (x' (region rnd i)) (Num 0.8)"
    using u [of "5 * i"] by (simp add: region_def)
  show "lt (width' (region rnd i)) (Num 0.25)"
    using u [of "5 * i + 2"] by (simp add: region_def)
qed

lemma region_near_edge:
  fixes e :: real
  assumes "0 < e"
  defines "u \<equiv> max (99 / 100) (1 - e)"
  shows "valid_random (\<lambda>_. u)"
    and "gt (x' (region (\<lambda>_. u) i) + width' (region (\<lambda>_. u) i)) (Num 1)"
    and "gt (x' (region (\<lambda>_. u) i)) (Num (0.8 - e))"
    and "gt (width' (region (\<lambda>_. u) i)) (Num (0.25 - e))"
proof -
  have u: "99 / 100 \<le> u" "u < 1" "1 - e \<le> u"
    using assms(1) by (simp_all add: u_def)
  show "valid_random (\<lambda>_. u)"
    using u by (simp add: valid_random_def)
  show "gt (x' (region (\<lambda>_. u) i)) (Num (0.8 - e))"
    using u assms(1) by (simp add: region_def)
  show "gt (width' (region (\<lambda>_. u) i)) (Num (0.25 - e))"
    using u assms(1) by (simp add: region_def)
  show "gt (x' (region (\<lambda>_. u) i) + width' (region (\<lambda>_. u) i)) (Num 1)"
    using u by (simp add: region_def)
qed

lemma spec_regionCount_45_80: "spec_regionCount (Num 45) (Num 80) = 6"
  by (simp add: spec_regionCount_def rnd64_unfold)

subsection \<open>Aggregation\<close>

lemma aggregate_cases:
  "aggregate env file img rnd pa ls ai md sl =
     (case toISOString (lastModified file) of
        Inl e \<Rightarrow> Inl e
      | Inr s \<Rightarrow>
          Inr \<lparr> resultType = fst (classify (Math_round (weightedSum pa ls ai md sl)) pa ls ai md),
                manipulationScore =
                  Math_min (Num 100) (Math_max (Num 0) (Math_round (weightedSum pa ls ai md sl))),
                trustScore =
                  Math_min (Num 100) (Math_max (Num 0)
                    (Math_max (Num 0) (fsub (Num 100) (Math_round (weightedSum pa ls ai md sl))))),
                explanation = snd (classify (Math_round (weightedSum pa ls ai md sl)) pa ls ai md),
                detectionDetails =
                  \<lparr> pixelAnomalies = pa, lightingShadows = ls, aiArtifacts = ai, metadata = md,
                    semanticLogic = sl \<rparr>,
                heatmapData = generateHeatmap img (severity pa) (confidence ai) rnd,
                metadataAnalysis =
                  \<lparr> hasExif = True, cameraModel = None, software = None, dateTime = Some s,
                    MetadataAnalysis.flags = Metadata.flags md \<rparr>,
                processingTimeMs = Math_round (fsub (Num (endTime env)) (Num (startTime env))) \<rparr>)"
  unfolding aggregate_def Let_def case_prod_beta ..

lemma aggregate_fields:
  assumes "aggregate env file img rnd pa ls ai md sl = Inr res"
  shows "manipulationScore res
           = Math_min (Num 100) (Math_max (Num 0) (Math_round (weightedSum pa ls ai md sl)))"
    and "trustScore res
           = Math_min (Num 100) (Math_max (Num 0)
               (Math_max (Num 0) (fsub (Num 100) (Math_round (weightedSum pa ls ai md sl)))))"
    and "resultType res = fst (classify (Math_round (weightedSum pa ls ai md sl)) pa ls ai md)"
    and "pixelAnomalies (detectionDetails res) = pa"
    and "lightingShadows (detectionDetails res) = ls"
    and "aiArtifacts (detectionDetails res) = ai"
    and "metadata (detectionDetails res) = md"
    and "semanticLogic (detectionDetails res) = sl"
    and "heatmapData res = generateHeatmap img (severity pa) (confidence ai) rnd"
    and "hasExif (metadataAnalysis res)"
    and "toISOString (lastModified file) = Inr (the (dateTime (metadataAnalysis res)))"
    and "dateTime (metadataAnalysis res) \<noteq> None"
    and "MetadataAnalysis.flags (metadataAnalysis res) = Metadata.flags md"
proof -
  obtain s where s: "toISOString (lastModified file) = Inr s"
    using assms by (cases "toISOString (lastModified file)") (simp_all add: aggregate_cases)
  have res: "res = \<lparr> resultType = fst (classify (Math_round (weightedSum pa ls ai md sl)) pa ls ai md),
                manipulationScore =
                  Math_min (Num 100) (Math_max (Num 0) (Math_round (weightedSum pa ls ai md sl))),
                trustScore =
                  Math_min (Num 100) (Math_max (Num 0)
                    (Math_max (Num 0) (fsub (Num 100) (Math_round (weightedSum pa ls ai md sl))))),
                explanation = snd (classify (Math_round (weightedSum pa ls ai md sl)) pa ls ai md),
                detectionDetails =
                  \<lparr> pixelAnomalies = pa, lightingShadows = ls, aiArtifacts = ai, metadata = md,
                    semanticLogic = sl \<rparr>,
                heatmapData = generateHeatmap img (severity pa) (confidence ai) rnd,
                metadataAnalysis =
                  \<lparr> hasExif = True, cameraModel = None, software = None, dateTime = Some s,
                    MetadataAnalysis.flags = Metadata.flags md \<rparr>,
                processingTimeMs = Math_round (fsub (Num (endTime env)) (Num (startTime env))) \<rparr>"
    using assms unfolding aggregate_cases s by simp
  show "manipulationScore res
           = Math_min (Num 100) (Math_max (Num 0) (Math_round (weightedSum pa ls ai md sl)))"
    by (subst res) simp
  show "trustScore res
           = Math_min (Num 100) (Math_max (Num 0)
               (Math_max (Num 0) (fsub (Num 100) (Math_round (weightedSum pa ls ai md sl)))))"
    by (subst res) simp
  show "resultType res = fst (classify (Math_round (weightedSum pa ls ai md sl)) pa ls ai md)"
    by (subst res) simp
  show "pixelAnomalies (detectionDetails res) = pa"
    by (subst res) simp
  show "lightingShadows (detectionDetails res) = ls"
    by (subst res) simp
  show "aiArtifacts (detectionDetails res) = ai"
    by (subst res) simp
  show "metadata (detectionDetails res) = md"
    by (subst res) simp
  show "semanticLogic (detectionDetails res) = sl"
    by (subst res) simp
  show "heatmapData res = generateHeatmap img (severity pa) (confidence ai) rnd"
    by (subst res) simp
  show "hasExif (metadataAnalysis res)"
    by (subst res) simp
  show "toISOString (lastModified file) = Inr (the (dateTime (metadataAnalysis res)))"
    by (subst res) (simp add: s)
  show "dateTime (metadataAnalysis res) \<noteq> None"
    by (subst res) simp
  show "MetadataAnalysis.flags (metadataAnalysis res) = Metadata.flags md"
    by (subst res) simp
qed

lemma aggregate_returns:
  assumes "\<bar>lastModified file\<bar> \<le> 8640000000000000"
  shows "\<exists>res. aggregate env file img rnd pa ls ai md sl = Inr res"
proof -
  from toISOString_in_range [OF assms] obtain s where "toISOString (lastModified file) = Inr s" ..
  then show ?thesis
    by (simp add: aggregate_cases)
qed

lemma analyzeImage_Inr:
  assumes "analyzeImage env file rnd = Inr res"
  obtains img where "canvasContext env" "imagePixels env file = Some img"
    "aggregate env file img (\<lambda>i. rnd (2050 + i))
            (analyzePixelAnomalies img rnd)
            (analyzeLightingAndShadows img)
            (detectAIArtifacts img (\<lambda>i. rnd (1000 + i)))
            (analyzeMetadata file)
            (analyzeSemanticLogic img) = Inr res"
proof (cases "canvasContext env")
  case False
  with assms show ?thesis
    by (simp add: analyzeImage_def loadImageData_def)
next
  case True
  show ?thesis
  proof (cases "imagePixels env file")
    case None
    with assms True show ?thesis
      by (simp add: analyzeImage_def loadImageData_def)
  next
    case (Some img)
    with assms True that [of img] show ?thesis
      by (simp add: analyzeImage_def loadImageData_def)
  qed
qed

lemma analyzeImage_returns:
  assumes "canvasContext env" "imagePixels env file = Some img"
    "\<bar>lastModified file\<bar> \<le> 8640000000000000"
  shows "\<exists>res. analyzeImage env file rnd = Inr res"
  using assms(1,2) aggregate_returns [OF assms(3)]
  by (simp add: analyzeImage_def loadImageData_def)

lemma weightedSum_Num:
  assumes "severity pa = Num s" "LightingShadows.score ls = Num l" "confidence ai = Num c"
    "SemanticLogic.score sl = Num d"
  shows "weightedSum pa ls ai md sl = Num (spec_weightedSum s l c (length (Metadata.flags md)) d)"
  by (simp add: weightedSum_def assms spec_weightedSum_def)

lemma aggregate_sum:
  assumes "aggregate env file img rnd pa ls ai md sl = Inr res"
    and "in_range 0 100 (severity pa)" "in_range 0 100 (LightingShadows.score ls)"
    "in_range 0 100 (confidence ai)" "in_range 0 100 (SemanticLogic.score sl)"
  shows "manipulationScore res + trustScore res = Num 100"
    and "in_range 0 100 (manipulationScore res)"
    and "in_range 0 100 (trustScore res)"
proof -
  from assms(2-5) obtain s l c d where n: "severity pa = Num s"
    "LightingShadows.score ls = Num l" "confidence ai = Num c" "SemanticLogic.score sl = Num d"
    by (blast dest: in_range_Num_ex)
  obtain m :: int where m: "Math_round (weightedSum pa ls ai md sl) = Num (real_of_int m)"
    by (simp add: weightedSum_Num [OF n])
  have ms: "manipulationScore res = Num (min 100 (max 0 (real_of_int m)))"
    by (simp add: aggregate_fields(1) [OF assms(1)] m del: Math_round_Num)
  have ts: "trustScore res = Num (real_of_int (min 100 (max 0 (100 - m))))"
    by (simp add: aggregate_fields(2) [OF assms(1)] m trust_clamp del: Math_round_Num)
  show "manipulationScore res + trustScore res = Num 100"
    by (simp add: ms ts min_def max_def)
  show "in_range 0 100 (manipulationScore res)"
    by (simp add: ms)
  show "in_range 0 100 (trustScore res)"
    by (simp add: ts)
qed

lemma wf_browser_image:
  "wf_browser env \<Longrightarrow> imagePixels env file = Some img \<Longrightarrow> wf_image img"
  by (simp add: wf_browser_def)

subsection \<open>The example inputs\<close>

lemma wf_browser0: "wf_image img \<Longrightarrow> wf_browser (browser0 img)"
  by (simp add: wf_browser_def browser0_def)

lemma wf_img11: "wf_image img11"
  by (simp add: wf_image_def img11_def)

lemma wf_img_c5: "wf_image img_c5"
  by (simp add: wf_image_def img_c5_def)

lemma wf_img_r3: "wf_image img_r3"
  by (simp add: wf_image_def img_r3_def)

lemma file0_in_range: "\<bar>lastModified file0\<bar> \<le> 8640000000000000"
  by (simp add: file0_def)

lemma analyzeImage_browser0_returns:
  "\<bar>lastModified file\<bar> \<le> 8640000000000000
   \<Longrightarrow> \<exists>res. analyzeImage (browser0 img) file rnd = Inr res"
  by (rule analyzeImage_returns [where img = img]) (simp_all add: browser0_def)

lemma upt_2: "[0..<2] = [0, 1]"
  by (simp add: upt_rec numeral_2_eq_2)

lemma upt_6: "[0..<6] = [0, 1, 2, 3, 4, 5]"
  by (simp add: upt_rec)

text \<open>The lighting of \<open>img_c5\<close>: brightness 0 and 152, mean 76, variance 5776, standard
  deviation 76, and a score of about 40.39.\<close>

lemma brightness_c5: "spec_brightness (data img_c5) = [0, 152]"
  by (simp add: spec_brightness_def spec_pixelBrightness_def img_c5_def upt_2)

lemma mean_c5: "spec_mean [0, 152] = 76"
  by (simp add: spec_mean_def spec_sum_def)

lemma variance_c5: "spec_variance [0, 152] = 5776"
  by (simp add: spec_variance_def mean_c5 spec_sum_def)

lemma sqrt_5776: "sqrt 5776 = 76"
  by (simp add: real_sqrt_unique)

lemma consistency_c5: "spec_consistencyScore (data img_c5) = 2842345353058585 / 2 ^ 46"
  unfolding spec_consistencyScore_def brightness_c5 variance_c5 sqrt_5776
  by (simp add: rnd64_unfold)

text \<open>The lighting of \<open>img_r3\<close>: over the reals the brightness values are \<open>80 / 3\<close> and
  \<open>539 / 3\<close>, the standard deviation is \<open>153 / 2\<close> and the score is 40; in double
  arithmetic the score is \<open>40 + 2\<^sup>-\<^sup>4\<^sup>6\<close>, about 40.000000000000014.\<close>

lemma brightness_r3:
  "spec_brightness (data img_r3)
     = [7505999378950827 / 2 ^ 48, 7505999378950827 / 2 ^ 48, 7505999378950827 / 2 ^ 48,
        6321458851960149 / 2 ^ 45, 6321458851960149 / 2 ^ 45, 6321458851960149 / 2 ^ 45]"
proof -
  have a: "rnd64 (80 / 3) = 7505999378950827 / 2 ^ 48"
    by (simp add: rnd64_unfold)
  have b: "rnd64 (539 / 3) = 6321458851960149 / 2 ^ 45"
    by (simp add: rnd64_unfold)
  show ?thesis
    by (simp add: spec_brightness_def spec_pixelBrightness_def img_r3_def upt_6 a b)
qed

lemma mean_r3:
  "spec_mean
     [7505999378950827 / 2 ^ 48, 7505999378950827 / 2 ^ 48, 7505999378950827 / 2 ^ 48,
      6321458851960149 / 2 ^ 45, 6321458851960149 / 2 ^ 45, 6321458851960149 / 2 ^ 45]
     = 7259708774329001 / 2 ^ 46"
  by (simp add: spec_mean_def spec_sum_def rnd64_unfold)

lemma variance_r3:
  "spec_variance
     [7505999378950827 / 2 ^ 48, 7505999378950827 / 2 ^ 48, 7505999378950827 / 2 ^ 48,
      6321458851960149 / 2 ^ 45, 6321458851960149 / 2 ^ 45, 6321458851960149 / 2 ^ 45]
     = 6434616923652093 / 2 ^ 40"
proof -
  have d1: "rnd64 (7505999378950827 / 2 ^ 48 - 7259708774329001 / 2 ^ 46)
      = - (2691604464795647 / 2 ^ 45)"
    by (simp add: rnd64_unfold)
  have d2: "rnd64 (6321458851960149 / 2 ^ 45 - 7259708774329001 / 2 ^ 46)
      = 5383208929591297 / 2 ^ 46"
    by (simp add: rnd64_unfold)
  have s1: "rnd64 (- (2691604464795647 / 2 ^ 45) * - (2691604464795647 / 2 ^ 45))
      = 6434616923652091 / 2 ^ 40"
    by (simp add: rnd64_unfold)
  have s2: "rnd64 (5383208929591297 / 2 ^ 46 * (5383208929591297 / 2 ^ 46))
      = 3217308461826049 / 2 ^ 39"
    by (simp add: rnd64_unfold)
  have sum: "spec_sum
      [6434616923652091 / 2 ^ 40, 6434616923652091 / 2 ^ 40, 6434616923652091 / 2 ^ 40,
       3217308461826049 / 2 ^ 39, 3217308461826049 / 2 ^ 39, 3217308461826049 / 2 ^ 39]
      = 2412981346369535 / 2 ^ 36"
    by (simp add: spec_sum_def rnd64_unfold)
  show ?thesis
    unfolding spec_variance_def mean_r3 list.map d1 d2 s1 s2 sum
    by (simp add: rnd64_unfold)
qed

lemma sqrt_r3: "rnd64 (sqrt (6434616923652093 / 2 ^ 40)) = 5383208929591295 / 2 ^ 46"
proof -
  have "rnd64 (sqrt (6434616923652093 / 2 ^ 40)) = twopow (6 - 52) * of_int 5383208929591295"
    by (rule rnd64_sqrt) (simp_all add: twopow_def power2_eq_square)
  then show ?thesis
    by (simp add: twopow_def)
qed

lemma consistency_r3: "spec_consistencyScore (data img_r3) = 2814749767106561 / 2 ^ 46"
  unfolding spec_consistencyScore_def brightness_r3 variance_r3 sqrt_r3
  by (simp add: rnd64_unfold)

text \<open>Three roundings that decide a score: \<open>90 * 0.35\<close> falls below 31.5, the severity
  \<open>(145 / 1000) * 100\<close> of 145 anomalous samples falls below 14.5, and the confidence
  \<open>0 * 0.3 + 45 * 0.7\<close> of no symmetric row and 450 smooth samples falls below 31.5.\<close>

lemma rounding_examples:
  "fmul (Num 90) (D 0.35) = Num (8866461766385663 / 2 ^ 48)"
  "Math_round (fmul (Num 90) (D 0.35)) = Num 31"
  "Math_round (fmul (fdiv (Num 145) (Num 1000)) (Num 100)) = Num 14"
  "Math_round (fadd (fmul (fmul (fdiv (Num 0) (Num 50)) (Num 100)) (D 0.3))
                    (fmul (fmul (fdiv (Num 450) (Num 1000)) (Num 100)) (D 0.7))) = Num 31"
  by (simp_all add: rnd64_unfold)

lemma randomIndex_img11: "randomIndex (data img11) 0 = 0"
  by (simp add: randomIndex_def)

lemma neighborDiff_img11: "neighborDiff img11 0 = NaN"
  by (simp add: neighborDiff_def Let_def getNeighborAverage_def neighbors_def img11_def)

lemma rowDiff_img11: "rowDiff img11 0 = Num 0"
  by (simp add: rowDiff_def Let_def img11_def rd_def)

lemma run_pixelAnomalies:
  "analyzePixelAnomalies img11 (\<lambda>_. 0)
     = \<lparr> PixelAnomalies.detected = False, severity = Num 0,
         description = ''No significant pixel anomalies detected'' \<rparr>"
  by (simp add: analyzePixelAnomalies_def Let_def randomIndex_img11 neighborDiff_img11
        fold_keep sampleSize_def)

lemma run_lighting:
  "analyzeLightingAndShadows img11
     = \<lparr> consistent = True, score = Num 100,
         description = ''Lighting and shadow patterns appear natural and consistent'' \<rparr>"
proof -
  have b: "brightness_loop (data img11) 0 [] = [Num 20]"
    by (simp add: img11_def brightness_loop.simps rd_def)
  show ?thesis
    unfolding analyzeLightingAndShadows_def Let_def b by simp
qed

lemma run_aiArtifacts:
  "detectAIArtifacts img11 (\<lambda>_. 0)
     = \<lparr> AiArtifacts.detected = False, confidence = Num 30,
         description = ''No significant AI generation artifacts found'' \<rparr>"
proof -
  have c: "fadd (fmul (Num 100) (D 0.3)) (fmul (Num 0) (D 0.7)) = Num 30"
    by (simp add: rnd64_unfold)
  have p: "fmul (fdiv (Num 50) (Num 50)) (Num 100) = Num 100"
    "fmul (fdiv (Num 0) (Num 1000)) (Num 100) = Num 0"
    by simp_all
  show ?thesis
    unfolding detectAIArtifacts_def Let_def
    by (simp add: randomIndex_img11 neighborDiff_img11 rowDiff_img11 fold_keep fold_Suc
          sampleRows_def p c del: D_Num fmul_Num fadd_Num fdiv_Num)
qed

lemma lower_name: "toLowerCase (name file0) = ''vacation.jpg''"
  by (simp add: toLowerCase_def lower_def file0_def)

lemma run_metadata:
  "analyzeMetadata file0
     = \<lparr> authentic = False, flags = [''Missing modification timestamp''],
         description = ''Metadata concerns: Missing modification timestamp'' \<rparr>"
  unfolding analyzeMetadata_def Let_def lower_name
  by (simp add: file0_def startsWith_def)

lemma run_semantic:
  "analyzeSemanticLogic img11
     = \<lparr> logical = False, SemanticLogic.score = Num 0,
         description = ''Limited color diversity may indicate synthetic generation'' \<rparr>"
proof -
  have l: "length (semantic_loop (data img11) 0 []) = 1"
    by (simp add: img11_def semantic_loop.simps Set_add_def)
  have s: "fmul (fdiv (Num 1) (Num 250)) (Num 100) = Num (3602879701896397 / 2 ^ 53)"
    by (simp add: rnd64_unfold)
  show ?thesis
    unfolding analyzeSemanticLogic_def Let_def l
    by (simp add: s del: fmul_Num fdiv_Num)
qed

lemma run_heatmap:
  "generateHeatmap img11 (Num 0) (Num 30) (\<lambda>_. 0)
     = \<lparr> regions = [\<lparr> x' = Num 0, y' = Num 0, width' = Num 0.1, height' = Num 0.1,
                       intensity = Num 0.3 \<rparr>] \<rparr>"
  by (simp add: generateHeatmap_def Let_def heatmap_loop_eq region_def rnd64_unfold)

lemma run_toISOString: "toISOString (lastModified file0) = Inr ''1970-01-01T00:00:00.000Z''"
  by (simp add: toISOString_def file0_def formatISO_0)

lemma run_weightedSum:
  "weightedSum
     \<lparr> PixelAnomalies.detected = False, severity = Num 0,
       description = ''No significant pixel anomalies detected'' \<rparr>
     \<lparr> consistent = True, score = Num 100,
       description = ''Lighting and shadow patterns appear natural and consistent'' \<rparr>
     \<lparr> AiArtifacts.detected = False, confidence = Num 30,
       description = ''No significant AI generation artifacts found'' \<rparr>
     \<lparr> authentic = False, flags = [''Missing modification timestamp''],
       description = ''Metadata concerns: Missing modification timestamp'' \<rparr>
     \<lparr> logical = False, SemanticLogic.score = Num 0,
       description = ''Limited color diversity may indicate synthetic generation'' \<rparr>
   = Num (71 / 2)"
  by (simp add: weightedSum_def rnd64_unfold)

lemma example_run: "analyzeImage (browser0 img11) file0 (\<lambda>_. 0) = Inr result0"
proof -
  have l: "loadImageData (browser0 img11) file0 = Inr img11"
    by (simp add: loadImageData_def browser0_def)
  have t: "endTime (browser0 img11) = 12" "startTime (browser0 img11) = 0"
    by (simp_all add: browser0_def)
  show ?thesis
    unfolding analyzeImage_def l sum.case run_pixelAnomalies run_lighting run_aiArtifacts
      run_metadata run_semantic aggregate_cases run_toISOString run_weightedSum t
    by (simp add: classify_def run_heatmap result0_def)
qed

section \<open>Claims\<close>

text \<open>
  Claim C1. For every five detector results, a returned result has
  \<open>manipulationScore = clamp(round(severity * 0.25 + (100 - lighting score) * 0.2
  + confidence * 0.35 + number of flags * 5 + (100 - semantic score) * 0.2))\<close> and
  \<open>trustScore = clamp(max(0, 100 - round(...)))\<close>, the trust score being taken from the
  score before clamping. The sum is the sum of the program, in double arithmetic from left
  to right. On detector results that are numbers this is the clamped
  \<open>spec_manipulationScore\<close> and the clamped \<open>spec_trustScore\<close> of it.
\<close>

theorem C1_score_composition:
  assumes "aggregate env file img rnd pa ls ai md sl = Inr res"
  shows "manipulationScore res
           = Math_min (Num 100) (Math_max (Num 0)
               (Math_round
                  (fadd (fadd (fadd (fadd
                     (fmul (severity pa) (D 0.25))
                     (fmul (fsub (Num 100) (LightingShadows.score ls)) (D 0.2)))
                     (fmul (confidence ai) (D 0.35)))
                     (fmul (Num (real (length (Metadata.flags md)))) (Num 5)))
                     (fmul (fsub (Num 100) (SemanticLogic.score sl)) (D 0.2)))))
       \<and> trustScore res
           = Math_min (Num 100) (Math_max (Num 0)
               (Math_max (Num 0)
                  (fsub (Num 100) (Math_round
                  (fadd (fadd (fadd (fadd
                     (fmul (severity pa) (D 0.25))
                     (fmul (fsub (Num 100) (LightingShadows.score ls)) (D 0.2)))
                     (fmul (confidence ai) (D 0.35)))
                     (fmul (Num (real (length (Metadata.flags md)))) (Num 5)))
                     (fmul (fsub (Num 100) (SemanticLogic.score sl)) (D 0.2)))))))
       \<and> (\<forall>s l c d. severity pa = Num s \<and> LightingShadows.score ls = Num l
              \<and> confidence ai = Num c \<and> SemanticLogic.score sl = Num d
            \<longrightarrow> manipulationScore res
                  = Num (real_of_int (spec_clamp
                      (spec_manipulationScore s l c (length (Metadata.flags md)) d)))
              \<and> trustScore res
                  = Num (real_of_int (spec_clamp (spec_trustScore
                      (spec_manipulationScore s l c (length (Metadata.flags md)) d)))))"
proof -
  note f = aggregate_fields(1,2) [OF assms]
  have a: "manipulationScore res
           = Math_min (Num 100) (Math_max (Num 0)
               (Math_round
                  (fadd (fadd (fadd (fadd
                     (fmul (severity pa) (D 0.25))
                     (fmul (fsub (Num 100) (LightingShadows.score ls)) (D 0.2)))
                     (fmul (confidence ai) (D 0.35)))
                     (fmul (Num (real (length (Metadata.flags md)))) (Num 5)))
                     (fmul (fsub (Num 100) (SemanticLogic.score sl)) (D 0.2)))))"
    unfolding f(1) weightedSum_def ..
  have b: "trustScore res
           = Math_min (Num 100) (Math_max (Num 0)
               (Math_max (Num 0)
                  (fsub (Num 100) (Math_round
                  (fadd (fadd (fadd (fadd
                     (fmul (severity pa) (D 0.25))
                     (fmul (fsub (Num 100) (LightingShadows.score ls)) (D 0.2)))
                     (fmul (confidence ai) (D 0.35)))
                     (fmul (Num (real (length (Metadata.flags md)))) (Num 5)))
                     (fmul (fsub (Num 100) (SemanticLogic.score sl)) (D 0.2)))))))"
    unfolding f(2) weightedSum_def ..
  have c: "manipulationScore res
                  = Num (real_of_int (spec_clamp
                      (spec_manipulationScore s l c (length (Metadata.flags md)) d)))
              \<and> trustScore res
                  = Num (real_of_int (spec_clamp (spec_trustScore
                      (spec_manipulationScore s l c (length (Metadata.flags md)) d))))"
    if n: "severity pa = Num s" "LightingShadows.score ls = Num l" "confidence ai = Num c"
      "SemanticLogic.score sl = Num d" for s l c d
  proof -
    define m where "m = spec_manipulationScore s l c (length (Metadata.flags md)) d"
    have r: "Math_round (weightedSum pa ls ai md sl) = Num (real_of_int m)"
      by (simp add: weightedSum_Num [OF n] m_def spec_manipulationScore_def spec_round_def)
    have "manipulationScore res = Num (real_of_int (spec_clamp m))"
      unfolding f r by (simp add: spec_clamp_def)
    moreover have "trustScore res = Num (real_of_int (spec_clamp (spec_trustScore m)))"
    proof -
      have "max 0 (max 0 (100 - m)) = max 0 (100 - m)"
        by simp
      then show ?thesis
        unfolding f r by (simp add: trust_clamp spec_clamp_def spec_trustScore_def)
    qed
    ultimately show ?thesis
      unfolding m_def by simp
  qed
  from a b c show ?thesis by blast
qed

theorem C1_score_composition_witness:
  "(\<exists>res. aggregate (browser0 img11) file0 img11 (\<lambda>_. 0) pa_loud ls_uneven ai_100 md_two sl_narrow
            = Inr res
       \<and> spec_manipulationScore 100 0 100 2 0 = 110
       \<and> manipulationScore res = Num 100 \<and> trustScore res = Num 0)
   \<and> (\<exists>res. aggregate (browser0 img11) file0 img11 (\<lambda>_. 0) pa_quiet ls_even ai_90 md_clean
               sl_diverse = Inr res
       \<and> spec_weightedSum 0 100 90 0 100 = 8866461766385663 / 2 ^ 48
       \<and> spec_manipulationScore 0 100 90 0 100 = 31
       \<and> manipulationScore res = Num 31 \<and> trustScore res = Num 69)"
proof -
  obtain res where res:
    "aggregate (browser0 img11) file0 img11 (\<lambda>_. 0) pa_loud ls_uneven ai_100 md_two sl_narrow
       = Inr res"
    using aggregate_returns [OF file0_in_range] by blast
  have w: "spec_weightedSum 100 0 100 2 0 = 110"
    by (simp add: spec_weightedSum_def rnd64_unfold)
  have m: "spec_manipulationScore 100 0 100 2 0 = 110"
    by (simp add: spec_manipulationScore_def spec_round_def w)
  have n: "severity pa_loud = Num 100 \<and> LightingShadows.score ls_uneven = Num 0
      \<and> confidence ai_100 = Num 100 \<and> SemanticLogic.score sl_narrow = Num 0"
    "length (Metadata.flags md_two) = 2"
    by (simp_all add: pa_loud_def ls_uneven_def ai_100_def sl_narrow_def md_two_def)
  from C1_score_composition [OF res] n(1)
  have "manipulationScore res
          = Num (real_of_int (spec_clamp
              (spec_manipulationScore 100 0 100 (length (Metadata.flags md_two)) 0)))
      \<and> trustScore res
          = Num (real_of_int (spec_clamp (spec_trustScore
              (spec_manipulationScore 100 0 100 (length (Metadata.flags md_two)) 0))))"
    by blast
  then have "manipulationScore res = Num 100 \<and> trustScore res = Num 0"
    unfolding n(2) m by (simp add: spec_clamp_def spec_trustScore_def)
  with res m have first:
    "\<exists>res. aggregate (browser0 img11) file0 img11 (\<lambda>_. 0) pa_loud ls_uneven ai_100 md_two
             sl_narrow = Inr res
       \<and> spec_manipulationScore 100 0 100 2 0 = 110
       \<and> manipulationScore res = Num 100 \<and> trustScore res = Num 0"
    by blast
  obtain res' where res':
    "aggregate (browser0 img11) file0 img11 (\<lambda>_. 0) pa_quiet ls_even ai_90 md_clean sl_diverse
       = Inr res'"
    using aggregate_returns [OF file0_in_range] by blast
  have w': "spec_weightedSum 0 100 90 0 100 = 8866461766385663 / 2 ^ 48"
    by (simp add: spec_weightedSum_def rnd64_unfold)
  have m': "spec_manipulationScore 0 100 90 0 100 = 31"
    by (simp add: spec_manipulationScore_def spec_round_def w')
  have n': "severity pa_quiet = Num 0 \<and> LightingShadows.score ls_even = Num 100
      \<and> confidence ai_90 = Num 90 \<and> SemanticLogic.score sl_diverse = Num 100"
    "length (Metadata.flags md_clean) = 0"
    by (simp_all add: pa_quiet_def ls_even_def ai_90_def sl_diverse_def md_clean_def)
  from C1_score_composition [OF res'] n'(1)
  have "manipulationScore res'
          = Num (real_of_int (spec_clamp
              (spec_manipulationScore 0 100 90 (length (Metadata.flags md_clean)) 100)))
      \<and> trustScore res'
          = Num (real_of_int (spec_clamp (spec_trustScore
              (spec_manipulationScore 0 100 90 (length (Metadata.flags md_clean)) 100))))"
    by blast
  then have "manipulationScore res' = Num 31 \<and> trustScore res' = Num 69"
    unfolding n'(2) m' by (simp add: spec_clamp_def spec_trustScore_def)
  with res' w' m' have second:
    "\<exists>res. aggregate (browser0 img11) file0 img11 (\<lambda>_. 0) pa_quiet ls_even ai_90 md_clean
               sl_diverse = Inr res
       \<and> spec_weightedSum 0 100 90 0 100 = 8866461766385663 / 2 ^ 48
       \<and> spec_manipulationScore 0 100 90 0 100 = 31
       \<and> manipulationScore res = Num 31 \<and> trustScore res = Num 69"
    by blast
  from first second show ?thesis by blast
qed

text \<open>
  Claim C2. The classification takes the first rule that matches: \<open>ai_generated\<close> when the
  AI artifact detector reports \<open>detected\<close> with a confidence above 70, else \<open>edited\<close> when the
  manipulation score (before clamping) is above 50, else \<open>real\<close>. With \<open>detected\<close> and a
  confidence of 85 the result is \<open>ai_generated\<close> whatever the other detectors report.
\<close>

theorem C2_classification_priority:
  assumes "aggregate env file img rnd pa ls ai md sl = Inr res"
  shows "resultType res
           = (if AiArtifacts.detected ai \<and> gt (confidence ai) (Num 70) then ai_generated
              else if gt (Math_round (weightedSum pa ls ai md sl)) (Num 50) then edited
              else real')
       \<and> (AiArtifacts.detected ai \<and> confidence ai = Num 85 \<longrightarrow> resultType res = ai_generated)"
proof -
  have "resultType res = fst (classify (Math_round (weightedSum pa ls ai md sl)) pa ls ai md)"
    by (rule aggregate_fields(3) [OF assms])
  then have a: "resultType res
           = (if AiArtifacts.detected ai \<and> gt (confidence ai) (Num 70) then ai_generated
              else if gt (Math_round (weightedSum pa ls ai md sl)) (Num 50) then edited
              else real')"
    by (simp add: classify_def)
  then show ?thesis
    by simp
qed

theorem C2_classification_priority_witness:
  "AiArtifacts.detected ai_85 \<and> confidence ai_85 = Num 85
   \<and> Math_round (weightedSum pa_quiet ls_even ai_85 md_clean sl_diverse) = Num 30
   \<and> (\<exists>res. aggregate (browser0 img11) file0 img11 (\<lambda>_. 0) pa_quiet ls_even ai_85 md_clean
               sl_diverse = Inr res
          \<and> resultType res = ai_generated)
   \<and> \<not> AiArtifacts.detected ai_46
   \<and> weightedSum pa_quiet ls_uneven ai_46 md_clean sl_28 = Num (7107243161944063 / 2 ^ 47)
   \<and> Math_round (weightedSum pa_quiet ls_uneven ai_46 md_clean sl_28) = Num 50
   \<and> (\<exists>res. aggregate (browser0 img11) file0 img11 (\<lambda>_. 0) pa_quiet ls_uneven ai_46 md_clean
               sl_28 = Inr res
          \<and> resultType res = real')"
proof -
  obtain res where res:
    "aggregate (browser0 img11) file0 img11 (\<lambda>_. 0) pa_quiet ls_even ai_85 md_clean sl_diverse
       = Inr res"
    using aggregate_returns [OF file0_in_range] by blast
  have h: "AiArtifacts.detected ai_85 \<and> confidence ai_85 = Num 85"
    by (simp add: ai_85_def)
  have s: "weightedSum pa_quiet ls_even ai_85 md_clean sl_diverse
      = Num (8373880557142015 / 2 ^ 48)"
    by (simp add: weightedSum_def pa_quiet_def ls_even_def ai_85_def md_clean_def sl_diverse_def
          rnd64_unfold)
  have w: "Math_round (weightedSum pa_quiet ls_even ai_85 md_clean sl_diverse) = Num 30"
    unfolding s by simp
  from C2_classification_priority [OF res] h have "resultType res = ai_generated"
    by blast
  with res have first:
    "\<exists>res. aggregate (browser0 img11) file0 img11 (\<lambda>_. 0) pa_quiet ls_even ai_85 md_clean
               sl_diverse = Inr res
          \<and> resultType res = ai_generated"
    by blast
  obtain res' where res':
    "aggregate (browser0 img11) file0 img11 (\<lambda>_. 0) pa_quiet ls_uneven ai_46 md_clean sl_28
       = Inr res'"
    using aggregate_returns [OF file0_in_range] by blast
  have h': "\<not> AiArtifacts.detected ai_46"
    by (simp add: ai_46_def)
  have s': "weightedSum pa_quiet ls_uneven ai_46 md_clean sl_28
      = Num (7107243161944063 / 2 ^ 47)"
    by (simp add: weightedSum_def pa_quiet_def ls_uneven_def ai_46_def md_clean_def sl_28_def
          rnd64_unfold)
  have w': "Math_round (weightedSum pa_quiet ls_uneven ai_46 md_clean sl_28) = Num 50"
    unfolding s' by simp
  from C2_classification_priority [OF res'] h' have "resultType res' = real'"
    unfolding w' by simp
  with res' have second:
    "\<exists>res. aggregate (browser0 img11) file0 img11 (\<lambda>_. 0) pa_quiet ls_uneven ai_46 md_clean
               sl_28 = Inr res
          \<and> resultType res = real'"
    by blast
  from h w first h' s' w' second show ?thesis by blast
qed

text \<open>
  Claim C3. For every image of positive width and height, whatever the random draws, the
  severity, lighting score, confidence and semantic score of a returned result lie in
  \<open>[0, 100]\<close>, and so do its final \<open>manipulationScore\<close> and \<open>trustScore\<close>.
\<close>

theorem C3_scores_in_range:
  assumes "wf_browser env" "analyzeImage env file rnd = Inr res"
  shows "in_range 0 100 (severity (pixelAnomalies (detectionDetails res)))
       \<and> in_range 0 100 (LightingShadows.score (lightingShadows (detectionDetails res)))
       \<and> in_range 0 100 (confidence (aiArtifacts (detectionDetails res)))
       \<and> in_range 0 100 (SemanticLogic.score (semanticLogic (detectionDetails res)))
       \<and> in_range 0 100 (manipulationScore res)
       \<and> in_range 0 100 (trustScore res)"
proof -
  from assms(2) obtain img where img: "imagePixels env file = Some img"
    and agg: "aggregate env file img (\<lambda>i. rnd (2050 + i))
            (analyzePixelAnomalies img rnd)
            (analyzeLightingAndShadows img)
            (detectAIArtifacts img (\<lambda>i. rnd (1000 + i)))
            (analyzeMetadata file)
            (analyzeSemanticLogic img) = Inr res"
    by (rule analyzeImage_Inr)
  from assms(1) img have wf: "wf_image img"
    by (rule wf_browser_image)
  note d = detectors_in_range [OF wf]
  note f = aggregate_fields [OF agg]
  have "in_range 0 100 (manipulationScore res)" "in_range 0 100 (trustScore res)"
    by (rule aggregate_sum(2,3) [OF agg d])+
  then show ?thesis
    using d by (simp add: f(4-8))
qed

theorem C3_scores_in_range_witness:
  "wf_browser (browser0 img11)
   \<and> analyzeImage (browser0 img11) file0 (\<lambda>_. 0) = Inr result0
   \<and> in_range 0 100 (severity (pixelAnomalies (detectionDetails result0)))
   \<and> in_range 0 100 (LightingShadows.score (lightingShadows (detectionDetails result0)))
   \<and> in_range 0 100 (confidence (aiArtifacts (detectionDetails result0)))
   \<and> in_range 0 100 (SemanticLogic.score (semanticLogic (detectionDetails result0)))
   \<and> in_range 0 100 (manipulationScore result0)
   \<and> in_range 0 100 (trustScore result0)"
proof -
  have wf: "wf_browser (browser0 img11)"
    by (rule wf_browser0 [OF wf_img11])
  show ?thesis
    using wf example_run C3_scores_in_range [OF wf example_run] by blast
qed

text \<open>
  Claim C4 says that the neighbour average takes only the up, down, left and right neighbours
  inside the image, so that a pixel of the leftmost column has no left neighbour. The
  program filters the four indices against the bounds of the flat buffer only: for the
  pixel in column 0 and row 1 of the 2 by 2 image \<open>img22\<close> (index 8) it averages over the
  indices 0, 4 and 12, and index 4 is the last pixel of the row above. The average is 30
  on each channel, where the neighbours inside the image (above and to the right) give 0.
\<close>

theorem C4_left_column_wraps:
  "neighbors (data img22) 8 (width img22) = [0, 4, 12]
   \<and> getNeighborAverage (data img22) 8 (width img22) = \<lparr> r' = Num 30, g' = Num 30, b' = Num 30 \<rparr>
   \<and> spec_neighbors2D img22 0 1 = [(0, 0), (1, 1)]
   \<and> spec_neighborAverage2D img22 0 1 0 = 0"
  by (simp add: getNeighborAverage_def neighbors_def rd_or0_def img22_def
        spec_neighbors2D_def spec_neighborAverage2D_def spec_channel_def)

text \<open>
  Claim C5 says that \<open>consistent\<close> compares the rounded score with 40. On the two pixels of
  \<open>img_c5\<close> (brightness 0 and 152, standard deviation 76) the score before rounding is
  about 40.39: \<open>consistent\<close> is true and the returned score is 40, which is not above 40.
\<close>

theorem C5_counterexample:
  "consistent (analyzeLightingAndShadows img_c5)
   \<and> LightingShadows.score (analyzeLightingAndShadows img_c5) = Num 40
   \<and> consistent (analyzeLightingAndShadows img_c5)
       \<noteq> gt (LightingShadows.score (analyzeLightingAndShadows img_c5)) (Num 40)"
proof -
  from wf_img_c5 have d: "4 dvd length (data img_c5)" "data img_c5 \<noteq> []"
    by (auto simp: wf_image_def)
  have c: "consistent (analyzeLightingAndShadows img_c5)"
    by (simp add: lighting_on_wf(2) [OF d] consistency_c5)
  have s: "LightingShadows.score (analyzeLightingAndShadows img_c5) = Num 40"
    by (simp add: lighting_on_wf(1) [OF d] consistency_c5)
  from c s show ?thesis by simp
qed

text \<open>
  Claim C5, amended. For every image of positive width and height the lighting detector
  returns the score \<open>round(max(0, 100 - sqrt(variance) / 255 * 200))\<close>, where the variance is
  the population variance of the per-pixel brightness (the unweighted mean of R, G and B
  over a full scan), and \<open>consistent\<close> holds exactly when the score before rounding is
  above 40. Brightness, mean, variance and score are the values of double arithmetic
  (\<open>spec_consistencyScore\<close>): on \<open>img_r3\<close>, where the score over the reals is exactly 40,
  the score of the program is just above 40 and \<open>consistent\<close> is true.
\<close>

theorem C5_lighting_score:
  assumes "wf_image img"
  shows "LightingShadows.score (analyzeLightingAndShadows img)
           = Num (real_of_int \<lfloor>spec_consistencyScore (data img) + 1 / 2\<rfloor>)
       \<and> (consistent (analyzeLightingAndShadows img) \<longleftrightarrow> spec_consistencyScore (data img) > 40)"
proof -
  from assms have d: "4 dvd length (data img)" "data img \<noteq> []"
    by (auto simp: wf_image_def)
  show ?thesis
    by (simp add: lighting_on_wf [OF d])
qed

theorem C5_lighting_score_witness:
  "wf_image img_gray
   \<and> spec_consistencyScore (data img_gray) = 100
   \<and> LightingShadows.score (analyzeLightingAndShadows img_gray) = Num 100
   \<and> consistent (analyzeLightingAndShadows img_gray)
   \<and> wf_image img_r3
   \<and> spec_consistencyScore (data img_r3) = 2814749767106561 / 2 ^ 46
   \<and> LightingShadows.score (analyzeLightingAndShadows img_r3) = Num 40
   \<and> consistent (analyzeLightingAndShadows img_r3)"
proof -
  have wf: "wf_image img_gray"
    by (simp add: wf_image_def img_gray_def)
  have b: "spec_brightness (data img_gray) = [128, 128]"
    by (simp add: spec_brightness_def spec_pixelBrightness_def img_gray_def upt_2)
  have m: "spec_mean [128, 128] = 128"
    by (simp add: spec_mean_def spec_sum_def)
  have v: "spec_variance [128, 128] = 0"
    by (simp add: spec_variance_def m spec_sum_def)
  have c: "spec_consistencyScore (data img_gray) = 100"
    by (simp add: spec_consistencyScore_def b v)
  from C5_lighting_score [OF wf] c
  have gray: "LightingShadows.score (analyzeLightingAndShadows img_gray) = Num 100
      \<and> consistent (analyzeLightingAndShadows img_gray)"
    by simp
  from C5_lighting_score [OF wf_img_r3]
  have r3: "LightingShadows.score (analyzeLightingAndShadows img_r3) = Num 40
      \<and> consistent (analyzeLightingAndShadows img_r3)"
    unfolding consistency_r3 by simp
  from wf c gray wf_img_r3 consistency_r3 r3 show ?thesis
    by (simp only: simp_thms)
qed

text \<open>
  Claim C6. The flags of the metadata detector depend on the file facts alone: they are the
  flags of those of the six rules that trigger, in the documented order, and \<open>authentic\<close>
  holds exactly when there is no flag.
\<close>

theorem C6_metadata_flags:
  "Metadata.flags (analyzeMetadata f) = spec_flags f
   \<and> authentic (analyzeMetadata f) = (Metadata.flags (analyzeMetadata f) = [])"
  by (simp add: analyzeMetadata_def Let_def spec_flags_def spec_rules_def)

theorem C6_metadata_flags_witness:
  "Metadata.flags (analyzeMetadata file_suspect)
     = [''Invalid MIME type'', ''Suspiciously small file size'',
        ''Missing modification timestamp'', ''Screenshot detected'', ''AI-related filename'']
   \<and> \<not> authentic (analyzeMetadata file_suspect)"
proof -
  have l: "toLowerCase (name file_suspect) = ''midjourney screenshot.png''"
    by (simp add: toLowerCase_def lower_def file_suspect_def char_of_def bit_0)
  have "spec_flags file_suspect
     = [''Invalid MIME type'', ''Suspiciously small file size'',
        ''Missing modification timestamp'', ''Screenshot detected'', ''AI-related filename'']"
    unfolding spec_flags_def spec_rules_def l
    by (simp add: file_suspect_def startsWith_def)
  with C6_metadata_flags [of file_suspect] show ?thesis
    by simp
qed

text \<open>
  Claim C7 says that no detector divides by zero once decoding has succeeded. The one-pixel
  image \<open>img11\<close> is well-formed and is handed on by \<open>loadImageData\<close>; its only pixel has no
  neighbour in the buffer, so \<open>getNeighborAverage\<close> divides 0 by 0 on every sample and
  returns \<open>NaN\<close> on each channel.
\<close>

theorem C7_counterexample:
  "wf_image img11
   \<and> loadImageData (browser0 img11) file0 = Inr img11
   \<and> randomIndex (data img11) 0 = 0
   \<and> neighbors (data img11) 0 (width img11) = []
   \<and> getNeighborAverage (data img11) 0 (width img11) = \<lparr> r' = NaN, g' = NaN, b' = NaN \<rparr>"
proof -
  have n: "neighbors (data img11) 0 (width img11) = []"
    by (simp add: neighbors_def img11_def)
  have l: "loadImageData (browser0 img11) file0 = Inr img11"
    by (simp add: loadImageData_def browser0_def)
  have i: "randomIndex (data img11) 0 = 0"
    by (simp add: randomIndex_def)
  from wf_img11 l i n getNeighborAverage_NaN [OF n] show ?thesis
    by simp
qed

text \<open>
  Claim C7, amended. \<open>loadImageData\<close> performs no check of its own: it hands on whatever
  image data the browser delivers, and its only errors are the missing canvas context and
  the failed load. On a buffer of at least two pixels no detector divides by zero: every
  sampled pixel has a neighbour in the buffer, so its neighbour average is a number, and
  on a non-empty buffer the brightness sequence is non-empty, so the lighting score is a
  number. On every image of positive width and height the four numeric detector results
  are numbers.
\<close>

theorem C7_no_guard_no_zero_division:
  "(canvasContext env \<and> imagePixels env file = Some img \<longrightarrow> loadImageData env file = Inr img)
   \<and> (loadImageData env file = Inl err \<longrightarrow>
        err = Error ''Could not get canvas context'' \<or> err = Error ''Failed to load image'')
   \<and> (4 dvd length (data img) \<and> 8 \<le> length (data img) \<and> 0 \<le> u \<and> u < 1 \<longrightarrow>
        neighbors (data img) (randomIndex (data img) u) w \<noteq> []
        \<and> r' (getNeighborAverage (data img) (randomIndex (data img) u) w) \<noteq> NaN
        \<and> g' (getNeighborAverage (data img) (randomIndex (data img) u) w) \<noteq> NaN
        \<and> b' (getNeighborAverage (data img) (randomIndex (data img) u) w) \<noteq> NaN)
   \<and> (4 dvd length (data img) \<and> data img \<noteq> [] \<longrightarrow>
        brightness_loop (data img) 0 [] \<noteq> []
        \<and> LightingShadows.score (analyzeLightingAndShadows img) \<noteq> NaN)
   \<and> (wf_image img \<longrightarrow>
        severity (analyzePixelAnomalies img rnd) \<noteq> NaN
        \<and> LightingShadows.score (analyzeLightingAndShadows img) \<noteq> NaN
        \<and> confidence (detectAIArtifacts img rnd) \<noteq> NaN
        \<and> SemanticLogic.score (analyzeSemanticLogic img) \<noteq> NaN)"
proof (intro conjI impI)
  assume "canvasContext env \<and> imagePixels env file = Some img"
  then show "loadImageData env file = Inr img"
    by (simp add: loadImageData_def)
next
  assume "loadImageData env file = Inl err"
  then show "err = Error ''Could not get canvas context'' \<or> err = Error ''Failed to load image''"
    by (auto simp: loadImageData_def split: if_splits option.splits)
next
  assume a: "4 dvd length (data img) \<and> 8 \<le> length (data img) \<and> 0 \<le> u \<and> u < 1"
  then have "4 dvd length (data img)" by simp
  then obtain k where k: "length (data img) = 4 * k" ..
  with a have k2: "2 \<le> k" by simp
  then have "0 < k" by simp
  with k a obtain j where j: "j < k" "randomIndex (data img) u = 4 * int j"
    using randomIndex_range [of "data img" k u] by blast
  have n: "neighbors (data img) (randomIndex (data img) u) w \<noteq> []"
    unfolding j(2) by (rule neighbors_nonempty [OF k k2 j(1)])
  note g = getNeighborAverage_Num [OF n]
  show "neighbors (data img) (randomIndex (data img) u) w \<noteq> []"
    by (rule n)
  show "r' (getNeighborAverage (data img) (randomIndex (data img) u) w) \<noteq> NaN"
    using g by simp
  show "g' (getNeighborAverage (data img) (randomIndex (data img) u) w) \<noteq> NaN"
    using g by simp
  show "b' (getNeighborAverage (data img) (randomIndex (data img) u) w) \<noteq> NaN"
    using g by simp
next
  assume a: "4 dvd length (data img) \<and> data img \<noteq> []"
  then have d: "4 dvd length (data img)" "data img \<noteq> []"
    by simp_all
  from d(1) obtain k where k: "length (data img) = 4 * k" ..
  have "length (data img) \<noteq> 0"
    using d(2) by simp
  with k have "k \<noteq> 0" by simp
  with k show "brightness_loop (data img) 0 [] \<noteq> []"
    by (simp add: brightness_loop_spec [OF d(1)] spec_brightness_def)
  show "LightingShadows.score (analyzeLightingAndShadows img) \<noteq> NaN"
    by (simp add: lighting_on_wf(1) [OF d])
next
  assume wf: "wf_image img"
  note d = detectors_in_range [OF wf]
  show "severity (analyzePixelAnomalies img rnd) \<noteq> NaN"
    by (rule in_range_not_NaN [OF d(1)])
  show "LightingShadows.score (analyzeLightingAndShadows img) \<noteq> NaN"
    by (rule in_range_not_NaN [OF d(2)])
  show "confidence (detectAIArtifacts img rnd) \<noteq> NaN"
    by (rule in_range_not_NaN [OF d(3)])
  show "SemanticLogic.score (analyzeSemanticLogic img) \<noteq> NaN"
    by (rule in_range_not_NaN [OF d(4)])
qed

theorem C7_no_guard_no_zero_division_witness:
  "canvasContext (browser0 img_c5) \<and> imagePixels (browser0 img_c5) file0 = Some img_c5
   \<and> loadImageData (browser0 img_c5) file0 = Inr img_c5
   \<and> 4 dvd length (data img_c5) \<and> 8 \<le> length (data img_c5) \<and> data img_c5 \<noteq> []
   \<and> randomIndex (data img_c5) (1 / 2) = 4
   \<and> neighbors (data img_c5) 4 2 = [0]
   \<and> r' (getNeighborAverage (data img_c5) (randomIndex (data img_c5) (1 / 2)) 2) \<noteq> NaN
   \<and> LightingShadows.score (analyzeLightingAndShadows img_c5) \<noteq> NaN
   \<and> wf_image img_c5
   \<and> severity (analyzePixelAnomalies img_c5 (\<lambda>_. 1 / 2)) \<noteq> NaN
   \<and> confidence (detectAIArtifacts img_c5 (\<lambda>_. 1 / 2)) \<noteq> NaN
   \<and> SemanticLogic.score (analyzeSemanticLogic img_c5) \<noteq> NaN"
proof -
  have h: "canvasContext (browser0 img_c5) \<and> imagePixels (browser0 img_c5) file0 = Some img_c5"
    by (simp add: browser0_def)
  have len: "length (data img_c5) = 8"
    by (simp add: img_c5_def)
  have ne: "data img_c5 \<noteq> []"
    by (simp add: img_c5_def)
  have d: "4 dvd length (data img_c5) \<and> 8 \<le> length (data img_c5) \<and> data img_c5 \<noteq> []"
    unfolding len using ne by simp
  have i: "randomIndex (data img_c5) (1 / 2) = 4"
    by (simp add: randomIndex_def img_c5_def)
  have n: "neighbors (data img_c5) 4 2 = [0]"
    by (simp add: neighbors_def img_c5_def)
  from C7_no_guard_no_zero_division
         [of "browser0 img_c5" file0 img_c5 _ "1 / 2" 2 "\<lambda>_. 1 / 2"] h d i n wf_img_c5
  show ?thesis
    by simp
qed

text \<open>
  Claim C8. The final \<open>manipulationScore\<close> and \<open>trustScore\<close> of every returned result sum to
  exactly 100.
\<close>

theorem C8_scores_sum_to_100:
  assumes "wf_browser env" "analyzeImage env file rnd = Inr res"
  shows "manipulationScore res + trustScore res = Num 100"
proof -
  from assms(2) obtain img where img: "imagePixels env file = Some img"
    and agg: "aggregate env file img (\<lambda>i. rnd (2050 + i))
            (analyzePixelAnomalies img rnd)
            (analyzeLightingAndShadows img)
            (detectAIArtifacts img (\<lambda>i. rnd (1000 + i)))
            (analyzeMetadata file)
            (analyzeSemanticLogic img) = Inr res"
    by (rule analyzeImage_Inr)
  from assms(1) img have wf: "wf_image img"
    by (rule wf_browser_image)
  show ?thesis
    by (rule aggregate_sum(1) [OF agg detectors_in_range [OF wf]])
qed

theorem C8_scores_sum_to_100_witness:
  "wf_browser (browser0 img_c5)
   \<and> (\<exists>res. analyzeImage (browser0 img_c5) file0 (\<lambda>_. 1 / 2) = Inr res
          \<and> manipulationScore res + trustScore res = Num 100)"
proof -
  have wf: "wf_browser (browser0 img_c5)"
    by (rule wf_browser0 [OF wf_img_c5])
  obtain res where res: "analyzeImage (browser0 img_c5) file0 (\<lambda>_. 1 / 2) = Inr res"
    using analyzeImage_browser0_returns [OF file0_in_range] by blast
  show ?thesis
    using wf res C8_scores_sum_to_100 [OF wf res] by blast
qed

text \<open>
  Claim C9. Every returned result has \<open>hasExif = true\<close> and a \<open>dateTime\<close>, the ISO string of
  the file's \<open>lastModified\<close>; when \<open>lastModified\<close> is 0 the metadata detector flags the
  missing timestamp and \<open>dateTime\<close> is still present, the epoch.
\<close>

theorem C9_metadata_summary:
  assumes "analyzeImage env file rnd = Inr res"
  shows "hasExif (metadataAnalysis res)
       \<and> dateTime (metadataAnalysis res) \<noteq> None
       \<and> toISOString (lastModified file) = Inr (the (dateTime (metadataAnalysis res)))
       \<and> (lastModified file = 0
            \<longrightarrow> ''Missing modification timestamp''
                  \<in> set (Metadata.flags (metadata (detectionDetails res)))
              \<and> dateTime (metadataAnalysis res) = Some ''1970-01-01T00:00:00.000Z'')"
proof -
  from assms obtain img where
    agg: "aggregate env file img (\<lambda>i. rnd (2050 + i))
            (analyzePixelAnomalies img rnd)
            (analyzeLightingAndShadows img)
            (detectAIArtifacts img (\<lambda>i. rnd (1000 + i)))
            (analyzeMetadata file)
            (analyzeSemanticLogic img) = Inr res"
    by (rule analyzeImage_Inr)
  note f = aggregate_fields [OF agg]
  have z: "''Missing modification timestamp''
                  \<in> set (Metadata.flags (metadata (detectionDetails res)))
              \<and> dateTime (metadataAnalysis res) = Some ''1970-01-01T00:00:00.000Z''"
    if "lastModified file = 0"
  proof -
    from that f(11) have "Inr (the (dateTime (metadataAnalysis res))) = toISOString 0"
      by simp
    also have "\<dots> = Inr ''1970-01-01T00:00:00.000Z''"
      by (simp add: toISOString_def formatISO_0)
    finally have "the (dateTime (metadataAnalysis res)) = ''1970-01-01T00:00:00.000Z''"
      by simp
    with f(12) have "dateTime (metadataAnalysis res) = Some ''1970-01-01T00:00:00.000Z''"
      by (cases "dateTime (metadataAnalysis res)") simp_all
    with that show ?thesis
      by (simp add: f(7) missing_timestamp_flag)
  qed
  from f(10) f(12) f(11) z show ?thesis by blast
qed

theorem C9_metadata_summary_witness:
  "analyzeImage (browser0 img11) file0 (\<lambda>_. 0) = Inr result0
   \<and> lastModified file0 = 0
   \<and> hasExif (metadataAnalysis result0)
   \<and> ''Missing modification timestamp''
        \<in> set (Metadata.flags (metadata (detectionDetails result0)))
   \<and> dateTime (metadataAnalysis result0) = Some ''1970-01-01T00:00:00.000Z''"
proof -
  have z: "lastModified file0 = 0"
    by (simp add: file0_def)
  from C9_metadata_summary [OF example_run] z example_run show ?thesis by blast
qed

text \<open>
  Claim C10. The heatmap never has more than 8 regions, and with draws from \<open>[0, 1)\<close> every
  \<open>x\<close>, \<open>y\<close>, \<open>width\<close>, \<open>height\<close> and \<open>intensity\<close> lies in \<open>[0, 1]\<close>, with \<open>x\<close> below 0.8 and
  \<open>width\<close> below 0.25. Whenever a region is generated, some draws put \<open>x + width\<close> above 1,
  with \<open>x\<close> as close to 0.8 and \<open>width\<close> as close to 0.25 as one likes.
\<close>

theorem C10_heatmap_regions:
  "length (regions (generateHeatmap img p a rnd)) \<le> 8
   \<and> (valid_random rnd \<longrightarrow>
        (\<forall>reg \<in> set (regions (generateHeatmap img p a rnd)).
           in_range 0 1 (x' reg) \<and> in_range 0 1 (y' reg) \<and> in_range 0 1 (width' reg)
           \<and> in_range 0 1 (height' reg) \<and> in_range 0 1 (intensity reg)
           \<and> lt (x' reg) (Num 0.8) \<and> lt (width' reg) (Num 0.25)))
   \<and> (regions (generateHeatmap img p a rnd) \<noteq> [] \<longrightarrow>
        (\<forall>e > 0. \<exists>rnd'. valid_random rnd'
           \<and> regions (generateHeatmap img p a rnd') \<noteq> []
           \<and> (\<forall>reg \<in> set (regions (generateHeatmap img p a rnd')).
                 gt (x' reg + width' reg) (Num 1)
                 \<and> gt (x' reg) (Num (0.8 - e)) \<and> gt (width' reg) (Num (0.25 - e)))))"
proof (intro conjI impI allI)
  show "length (regions (generateHeatmap img p a rnd)) \<le> 8"
    by (simp add: generateHeatmap_regions spec_regionCount_le)
next
  assume v: "valid_random rnd"
  show "\<forall>reg \<in> set (regions (generateHeatmap img p a rnd)).
           in_range 0 1 (x' reg) \<and> in_range 0 1 (y' reg) \<and> in_range 0 1 (width' reg)
           \<and> in_range 0 1 (height' reg) \<and> in_range 0 1 (intensity reg)
           \<and> lt (x' reg) (Num 0.8) \<and> lt (width' reg) (Num 0.25)"
  proof
    fix reg
    assume "reg \<in> set (regions (generateHeatmap img p a rnd))"
    then obtain i where "reg = region rnd i"
      by (auto simp: generateHeatmap_regions)
    then show "in_range 0 1 (x' reg) \<and> in_range 0 1 (y' reg) \<and> in_range 0 1 (width' reg)
           \<and> in_range 0 1 (height' reg) \<and> in_range 0 1 (intensity reg)
           \<and> lt (x' reg) (Num 0.8) \<and> lt (width' reg) (Num 0.25)"
      using region_bounds [OF v, of i] by (simp only: simp_thms)
  qed
next
  fix e :: real
  assume ne: "regions (generateHeatmap img p a rnd) \<noteq> []" and e: "0 < e"
  let ?r = "\<lambda>_::nat. max (99 / 100) (1 - e)"
  from ne have "regions (generateHeatmap img p a ?r) \<noteq> []"
    by (simp add: generateHeatmap_regions)
  moreover have "\<forall>reg \<in> set (regions (generateHeatmap img p a ?r)).
                 gt (x' reg + width' reg) (Num 1)
                 \<and> gt (x' reg) (Num (0.8 - e)) \<and> gt (width' reg) (Num (0.25 - e))"
  proof
    fix reg
    assume "reg \<in> set (regions (generateHeatmap img p a ?r))"
    then obtain i where "reg = region ?r i"
      by (auto simp: generateHeatmap_regions)
    then show "gt (x' reg + width' reg) (Num 1)
                 \<and> gt (x' reg) (Num (0.8 - e)) \<and> gt (width' reg) (Num (0.25 - e))"
      using region_near_edge(2-4) [OF e, of i] by (simp only: simp_thms)
  qed
  ultimately show "\<exists>rnd'. valid_random rnd'
           \<and> regions (generateHeatmap img p a rnd') \<noteq> []
           \<and> (\<forall>reg \<in> set (regions (generateHeatmap img p a rnd')).
                 gt (x' reg + width' reg) (Num 1)
                 \<and> gt (x' reg) (Num (0.8 - e)) \<and> gt (width' reg) (Num (0.25 - e)))"
    using region_near_edge(1) [OF e] by blast
qed

theorem C10_heatmap_regions_witness:
  "valid_random (\<lambda>_. 99 / 100)
   \<and> regions (generateHeatmap img11 (Num 45) (Num 80) (\<lambda>_. 99 / 100))
       = replicate 6 \<lparr> x' = Num (99 / 125), y' = Num (99 / 125), width' = Num (497 / 2000),
                         height' = Num (497 / 2000), intensity = Num (993 / 1000) \<rparr>
   \<and> in_range 0 1 (Num (99 / 125)) \<and> in_range 0 1 (Num (497 / 2000))
   \<and> in_range 0 1 (Num (993 / 1000))
   \<and> gt (Num (99 / 125) + Num (497 / 2000)) (Num 1)"
proof -
  let ?reg = "\<lparr> x' = Num (99 / 125), y' = Num (99 / 125), width' = Num (497 / 2000),
                height' = Num (497 / 2000), intensity = Num (993 / 1000) \<rparr>"
  let ?rs = "regions (generateHeatmap img11 (Num 45) (Num 80) (\<lambda>_. 99 / 100))"
  have v: "valid_random (\<lambda>_. 99 / 100)"
    by (simp add: valid_random_def)
  have r: "region (\<lambda>_. 99 / 100) = (\<lambda>_. ?reg)"
    by (rule ext) (simp add: region_def)
  have e: "?rs = replicate 6 ?reg"
    by (simp add: generateHeatmap_regions spec_regionCount_45_80 r map_replicate_const)
  then have m: "?reg \<in> set ?rs"
    by simp
  from C10_heatmap_regions [of img11 "Num 45" "Num 80" "\<lambda>_. 99 / 100"] v m
  have "in_range 0 1 (x' ?reg) \<and> in_range 0 1 (width' ?reg) \<and> in_range 0 1 (intensity ?reg)"
    by blast
  with v e show ?thesis
    by simp
qed

end
